theory Spec2Isabelle
  imports Complex_Main "HOL-Library.Char_ord" "HOL-Library.List_Lexorder" "HOL-Library.Option_ord"
    "HOL-Library.Multiset"
begin

section \<open>Data model\<close>

text \<open>
  The repository keeps every table in a pandas frame (\<^verbatim>\<open>DataStorage.df\<close>). A frame is
  modelled by its column labels, in order, and its rows, in order; a row is its index
  label together with its cells, addressed by column label as the source addresses them
  (\<^verbatim>\<open>df[column]\<close>, \<^verbatim>\<open>df.loc[row, column]\<close>). A cell is \<open>None\<close> where pandas holds a
  null (NaN or Python's None) and \<open>Some v\<close> otherwise; column types are not modelled. Index
  labels may repeat; frames are meant to carry each column label once.
\<close>

record ('k, 'v) dataframe =
  columns :: "string list"
  rows :: "('k \<times> (string \<Rightarrow> 'v option)) list"

definition df_index :: "('k, 'v) dataframe \<Rightarrow> 'k list" where
  "df_index df = map fst (rows df)"

text \<open>The label and a cell of the row at position \<open>i\<close>.\<close>

definition label_at :: "('k, 'v) dataframe \<Rightarrow> nat \<Rightarrow> 'k" where
  "label_at df i = fst (rows df ! i)"

definition cell_at :: "('k, 'v) dataframe \<Rightarrow> nat \<Rightarrow> string \<Rightarrow> 'v option" where
  "cell_at df i c = snd (rows df ! i) c"

text \<open>Exceptions of the source and of the library calls it makes, as values.\<close>

datatype 'v error =
    NoData                      \<comment> \<open>ValueError: could not obtain data\<close>
  | MissingKey "'v option list" \<comment> \<open>KeyError: no date column, with the first row's values\<close>
  | KeyError string             \<comment> \<open>a label that is not in the frame or record\<close>
  | DuplicateLabels             \<comment> \<open>ValueError: cannot reindex on an axis with duplicate labels\<close>
  | UnboundLocalError           \<comment> \<open>a local variable read before assignment\<close>
  | IndexError                  \<comment> \<open>list index out of range\<close>
  | DateFormatError             \<comment> \<open>ValueError: a label does not match the date format\<close>

section \<open>Merge engine: \<^verbatim>\<open>FMP._add_entries_to_ds\<close>\<close>

text \<open>
  \<^verbatim>\<open>list(set(a) - set(b))\<close> lists a set in an order Python does not fix. The order is a
  parameter of the model; \<open>set_listing\<close> says what every such order satisfies.
\<close>

definition set_listing :: "('a list \<Rightarrow> 'a list) \<Rightarrow> bool" where
  "set_listing f = (\<forall>xs. set (f xs) = set xs \<and> distinct (f xs))"

text \<open>
  Python's sets compare row labels with \<^verbatim>\<open>==\<close>, and not every label is equal to itself:
  NaN, the label pandas holds for a missing date, is not. Such a label of the batch is
  never found among the labels of the store, whether the store has it or not, and a set
  may hold it more than once. Which labels are equal to themselves is a parameter,
  \<open>self_equal\<close>; a listing of row labels lists those once and the others at least once.
  pandas itself, in \<^verbatim>\<open>loc\<close> and in the alignment of \<^verbatim>\<open>update\<close>, does match a NaN label
  with a NaN label.
\<close>

definition label_listing :: "('k \<Rightarrow> bool) \<Rightarrow> ('k list \<Rightarrow> 'k list) \<Rightarrow> bool" where
  "label_listing self_equal f =
     (\<forall>xs. set (f xs) = set xs \<and> distinct (filter self_equal (f xs)))"

text \<open>
  \<^verbatim>\<open>df.loc[row, :] = nan\<close>: every cell of the rows labelled \<open>row\<close> becomes null; when no
  row carries the label, a row of nulls is appended (setting with enlargement).
\<close>

definition loc_row_nan :: "'k \<Rightarrow> ('k, 'v) dataframe \<Rightarrow> ('k, 'v) dataframe" where
  "loc_row_nan k df =
     (if k \<in> set (df_index df)
      then df\<lparr>rows := map (\<lambda>(k', r). if k' = k
                 then (k', \<lambda>c. if c \<in> set (columns df) then None else r c)
                 else (k', r)) (rows df)\<rparr>
      else df\<lparr>rows := rows df @ [(k, \<lambda>c. None)]\<rparr>)"

text \<open>
  \<^verbatim>\<open>df.loc[:, column] = nan\<close>: the column's cells become null in every row; a label that
  is not a column yet is appended to the columns.
\<close>

definition loc_col_nan :: "string \<Rightarrow> ('k, 'v) dataframe \<Rightarrow> ('k, 'v) dataframe" where
  "loc_col_nan c df =
     df\<lparr>columns := (if c \<in> set (columns df) then columns df else columns df @ [c]),
        rows := map (\<lambda>(k, r). (k, r(c := None))) (rows df)\<rparr>"

text \<open>
  \<^verbatim>\<open>DataFrame.update(other)\<close> aligns \<open>other\<close> on the labels of the frame
  (\<^verbatim>\<open>other.reindex_like(self)\<close>) and, column by column of the frame, keeps the old cell
  where the aligned cell is null and takes the aligned cell otherwise. \<open>aligned other k c\<close>
  is the cell of the aligned frame at row label \<open>k\<close> and column \<open>c\<close>. pandas refuses to
  align rows that carry a label twice (ValueError), unless the row labels of \<open>other\<close> are
  already those of the frame, in order: then it takes the rows of \<open>other\<close> as they are,
  position by position (for distinct labels that is what the alignment by label gives).
  For a column label that \<open>other\<close> carries twice the model always raises: a frame here
  holds one cell for each row and column label.
\<close>

definition aligned :: "('k, 'v) dataframe \<Rightarrow> 'k \<Rightarrow> string \<Rightarrow> 'v option" where
  "aligned other k c =
     (case map_of (rows other) k of
        None \<Rightarrow> None
      | Some r \<Rightarrow> if c \<in> set (columns other) then r c else None)"

definition DataFrame_update ::
  "('k, 'v) dataframe \<Rightarrow> ('k, 'v) dataframe \<Rightarrow> 'v error + ('k, 'v) dataframe" where
  "DataFrame_update self other =
     (if \<not> distinct (columns other) then Inl DuplicateLabels
      else if distinct (df_index other) then
        Inr (self\<lparr>rows := map (\<lambda>(k, this). (k, \<lambda>c.
                  if c \<in> set (columns self)
                  then (case aligned other k c of None \<Rightarrow> this c | Some v \<Rightarrow> Some v)
                  else this c)) (rows self)\<rparr>)
      else if df_index other = df_index self then
        Inr (self\<lparr>rows := map (\<lambda>((k, this), (k', that)). (k, \<lambda>c.
                  if c \<in> set (columns self) \<and> c \<in> set (columns other)
                  then (case that c of None \<Rightarrow> this c | Some v \<Rightarrow> Some v)
                  else this c)) (zip (rows self) (rows other))\<rparr>)
      else Inl DuplicateLabels)"

text \<open>
  The merge itself. A row label of the batch counts as missing when the store does not
  have it or when it is not equal to itself; for a label the store has, line 322 then
  does not add a row but sets every cell of the store's rows of that label to null. The
  store is mutated in place, so the model returns the store as the call leaves it
  together with the exception, if any: what was added or set to null before a failing
  \<^verbatim>\<open>update\<close> stays so.
\<close>

definition add_entries_to_ds ::
  "('k \<Rightarrow> bool) \<Rightarrow> ('k list \<Rightarrow> 'k list) \<Rightarrow> (string list \<Rightarrow> string list) \<Rightarrow>
   ('k, 'v) dataframe \<Rightarrow> ('k, 'v) dataframe \<Rightarrow> 'v error option \<times> ('k, 'v) dataframe" where
  "add_entries_to_ds self_equal row_order col_order ds entries =
     (let missing_rows = row_order (filter (\<lambda>k. \<not> (self_equal k \<and> k \<in> set (df_index ds)))
                                     (df_index entries));
          missing_columns = col_order (filter (\<lambda>c. c \<notin> set (columns ds)) (columns entries));
          ds1 = fold loc_row_nan missing_rows ds;
          ds2 = fold loc_col_nan missing_columns ds1
      in case DataFrame_update ds2 entries of
           Inl e \<Rightarrow> (Some e, ds2)
         | Inr ds3 \<Rightarrow> (None, ds3))"

text \<open>The rows of a label hold no value in any column of the frame.\<close>

definition nulled :: "('k, 'v) dataframe \<Rightarrow> 'k \<Rightarrow> bool" where
  "nulled fr k = (\<forall>(k', r)\<in>set (rows fr). k' = k \<longrightarrow> (\<forall>c\<in>set (columns fr). r c = None))"

section \<open>Indexed table store: \<^verbatim>\<open>DataStorage\<close> predicates\<close>

text \<open>
  \<^verbatim>\<open>df[column]\<close>: the cells of a column, top to bottom; KeyError when the label is not a
  column of the frame.
\<close>

definition column_cells :: "('k, 'v) dataframe \<Rightarrow> string \<Rightarrow> 'v error + 'v option list" where
  "column_cells df c =
     (if c \<in> set (columns df) then Inr (map (\<lambda>(k, r). r c) (rows df)) else Inl (KeyError c))"

text \<open>
  The \<^verbatim>\<open>if\<close>/\<^verbatim>\<open>elif\<close> chain that \<^verbatim>\<open>update_rows\<close>, \<^verbatim>\<open>get_rows_by_condition\<close> and
  \<^verbatim>\<open>remove_rows_by_condition\<close> each spell out to compute \<^verbatim>\<open>bool_filter\<close>. The operator is
  the string the caller passes. The result is \<open>None\<close> when no branch of the chain is
  taken, so that \<^verbatim>\<open>bool_filter\<close> is never assigned; what happens then is up to each of the
  three methods. A null cell compares false under \<^verbatim>\<open>>\<close>, \<^verbatim>\<open><\<close> and \<^verbatim>\<open>==\<close> and true
  under \<^verbatim>\<open>!=\<close>; a value of \<open>None\<close> is Python's None, which \<^verbatim>\<open>eq\<close> and \<^verbatim>\<open>neq\<close> turn
  into the null tests and with which no cell compares true under \<^verbatim>\<open>>\<close> or \<^verbatim>\<open><\<close>.
\<close>

definition bool_filter ::
  "('k, 'v::linorder) dataframe \<Rightarrow> string \<Rightarrow> string \<Rightarrow> 'v option \<Rightarrow>
   ('v error + bool list) option" where
  "bool_filter df column condition val =
     (if condition = ''gt'' then
        Some (case column_cells df column of Inl e \<Rightarrow> Inl e | Inr xs \<Rightarrow>
          (case val of None \<Rightarrow> Inr (map (\<lambda>x. False) xs)
           | Some v \<Rightarrow> Inr (map (\<lambda>x. case x of None \<Rightarrow> False | Some a \<Rightarrow> a > v) xs)))
      else if condition = ''lt'' then
        Some (case column_cells df column of Inl e \<Rightarrow> Inl e | Inr xs \<Rightarrow>
          (case val of None \<Rightarrow> Inr (map (\<lambda>x. False) xs)
           | Some v \<Rightarrow> Inr (map (\<lambda>x. case x of None \<Rightarrow> False | Some a \<Rightarrow> a < v) xs)))
      else if condition = ''eq'' then
        Some (case column_cells df column of Inl e \<Rightarrow> Inl e | Inr xs \<Rightarrow>
          (case val of Some v \<Rightarrow> Inr (map (\<lambda>x. x = Some v) xs)
           | None \<Rightarrow> Inr (map (\<lambda>x. x = None) xs)))
      else if condition = ''neq'' then
        Some (case column_cells df column of Inl e \<Rightarrow> Inl e | Inr xs \<Rightarrow>
          (case val of Some v \<Rightarrow> Inr (map (\<lambda>x. x \<noteq> Some v) xs)
           | None \<Rightarrow> Inr (map (\<lambda>x. x \<noteq> None) xs)))
      else None)"

text \<open>\<^verbatim>\<open>df[bool_filter]\<close>: the rows at the positions where the filter is true.\<close>

definition select_rows :: "bool list \<Rightarrow> ('k, 'v) dataframe \<Rightarrow> ('k, 'v) dataframe" where
  "select_rows bs df = df\<lparr>rows := map snd (filter fst (zip bs (rows df)))\<rparr>"

text \<open>
  \<^verbatim>\<open>get_rows_by_condition\<close>: the chain ends in \<^verbatim>\<open>else: return\<close>, so with any other
  operator the method returns Python's None (\<open>Inr None\<close>) and raises nothing.
\<close>

definition get_rows_by_condition ::
  "('k, 'v::linorder) dataframe \<Rightarrow> string \<Rightarrow> string \<Rightarrow> 'v option \<Rightarrow>
   'v error + ('k, 'v) dataframe option" where
  "get_rows_by_condition df column condition val =
     (case bool_filter df column condition val of
        None \<Rightarrow> Inr None
      | Some (Inl e) \<Rightarrow> Inl e
      | Some (Inr bs) \<Rightarrow> Inr (Some (select_rows bs df)))"

text \<open>
  \<^verbatim>\<open>remove_rows_by_condition\<close>: the same \<^verbatim>\<open>else: return\<close>. Otherwise
  \<^verbatim>\<open>df.drop(df[bool_filter].index)\<close> drops by label: every row that carries the label of
  a selected row goes. The result is the exception, if any, and the frame the store holds
  afterwards.
\<close>

definition remove_rows_by_condition ::
  "('k, 'v::linorder) dataframe \<Rightarrow> string \<Rightarrow> string \<Rightarrow> 'v option \<Rightarrow>
   'v error option \<times> ('k, 'v) dataframe" where
  "remove_rows_by_condition df column condition val =
     (case bool_filter df column condition val of
        None \<Rightarrow> (None, df)
      | Some (Inl e) \<Rightarrow> (Some e, df)
      | Some (Inr bs) \<Rightarrow>
          (None, df\<lparr>rows := filter (\<lambda>(k, r). k \<notin> set (df_index (select_rows bs df))) (rows df)\<rparr>))"

text \<open>
  \<^verbatim>\<open>update_rows\<close>: the chain has no \<^verbatim>\<open>else\<close>, so with any other operator the last line
  reads \<^verbatim>\<open>bool_filter\<close> unassigned and Python raises UnboundLocalError before the frame
  is touched. Otherwise \<^verbatim>\<open>df.loc[bool_filter, columns_to_update] = update_value\<close> writes
  the value into the listed columns of the selected rows; a listed label that is not a
  column yet becomes one, as often as it is listed, null in the rows that are not selected.
\<close>

definition update_rows ::
  "('k, 'v::linorder) dataframe \<Rightarrow> string \<Rightarrow> string \<Rightarrow> 'v option \<Rightarrow> string list \<Rightarrow> 'v option \<Rightarrow>
   'v error option \<times> ('k, 'v) dataframe" where
  "update_rows df condition_column condition condition_value columns_to_update update_value =
     (case bool_filter df condition_column condition condition_value of
        None \<Rightarrow> (Some UnboundLocalError, df)
      | Some (Inl e) \<Rightarrow> (Some e, df)
      | Some (Inr bs) \<Rightarrow>
          (None, df\<lparr>columns := columns df
                                 @ filter (\<lambda>c. c \<notin> set (columns df)) columns_to_update,
                    rows := map (\<lambda>(b, (k, r)). (k, \<lambda>c.
                              if c \<in> set columns_to_update
                              then (if b then update_value
                                    else if c \<in> set (columns df) then r c else None)
                              else r c)) (zip bs (rows df))\<rparr>))"

section \<open>Python strings and paths\<close>

text \<open>
  Python's \<^verbatim>\<open>str\<close> is modelled by \<open>string\<close>; the symbols, labels and URLs of the
  repository are ASCII. \<^verbatim>\<open>s.find(".")\<close> is the position of the first dot, or \<open>-1\<close>.
\<close>

fun find_char :: "char \<Rightarrow> string \<Rightarrow> int" where
  "find_char c [] = -1"
| "find_char c (x # xs) =
     (if x = c then 0 else (let r = find_char c xs in if r = -1 then -1 else r + 1))"

text \<open>
  \<^verbatim>\<open>s.replace(old, new)\<close> replaces every occurrence of \<open>old\<close>, found from the left and
  not overlapping; with an empty \<open>old\<close> Python puts \<open>new\<close> before every character and at
  the end.
\<close>

function str_replace :: "string \<Rightarrow> string \<Rightarrow> string \<Rightarrow> string" where
  "str_replace old new s =
     (if old = [] then new @ concat (map (\<lambda>c. c # new) s)
      else if s = [] then []
      else if take (length old) s = old then new @ str_replace old new (drop (length old) s)
      else hd s # str_replace old new (tl s))"
  by pat_completeness auto
termination
  by (relation "measure (\<lambda>(old, new, s). length s)") auto

declare str_replace.simps [simp del]

text \<open>\<^verbatim>\<open>s.startswith(p)\<close>.\<close>

definition startswith :: "string \<Rightarrow> string \<Rightarrow> bool" where
  "startswith s p = (take (length p) s = p)"

text \<open>\<^verbatim>\<open>str(n)\<close> for an integer: its decimal digits, with a minus sign when negative.\<close>

fun str_nat :: "nat \<Rightarrow> string" where
  "str_nat n =
     (if n < 10 then [''0123456789'' ! n] else str_nat (n div 10) @ [''0123456789'' ! (n mod 10)])"

declare str_nat.simps [simp del]

definition str_int :: "int \<Rightarrow> string" where
  "str_int i = (if i < 0 then CHR ''-'' # str_nat (nat (- i)) else str_nat (nat i))"

text \<open>
  \<^verbatim>\<open>os.path.join(a, b)\<close> of two components on a POSIX system: an absolute \<open>b\<close> replaces
  \<open>a\<close>; otherwise the two are joined with one slash unless \<open>a\<close> is empty or ends in one.
\<close>

definition path_join :: "string \<Rightarrow> string \<Rightarrow> string" where
  "path_join a b =
     (if startswith b ''/'' then b
      else if a = [] \<or> last a = CHR ''/'' then a @ b
      else a @ ''/'' @ b)"

section \<open>The symbol's stores: \<^verbatim>\<open>DataStorage.__init__\<close>, \<^verbatim>\<open>FMP.__init__\<close>\<close>

text \<open>
  Of a \<^verbatim>\<open>DataStorage\<close> the model keeps the file path and the frame. \<^verbatim>\<open>FMP\<close> never passes
  \<^verbatim>\<open>columns\<close> or \<^verbatim>\<open>column_types\<close>, so both stay None, and the display name is not read
  anywhere in the synchronisation.
\<close>

record ('k, 'v) datastorage =
  file_path :: string
  df :: "('k, 'v) dataframe"

definition EXT :: string where
  "EXT = ''.csv''"

definition DataStorage :: "string \<Rightarrow> string \<Rightarrow> ('k, 'v) datastorage" where
  "DataStorage file_name base_dir =
     \<lparr>file_path = path_join base_dir (file_name @ EXT),
      df = \<lparr>columns = [], rows = []\<rparr>\<rparr>"

text \<open>The class constants of \<^verbatim>\<open>FMP\<close>.\<close>

definition SYMBOL_PLACEHOLDER :: string where
  "SYMBOL_PLACEHOLDER = ''###''"

definition API_KEY_PLACEHOLDER :: string where
  "API_KEY_PLACEHOLDER = ''@@@''"

definition PAGE_PLACEHOLDER :: string where
  "PAGE_PLACEHOLDER = ''$$$''"

definition NEWS_BASE_URL :: string where
  "NEWS_BASE_URL = ''https://financialmodelingprep.com/api/v3/'' @ ''stock_news''"

definition NEWS_URL :: string where
  "NEWS_URL = NEWS_BASE_URL @ ''?tickers='' @ SYMBOL_PLACEHOLDER @ ''&apikey='' @
     API_KEY_PLACEHOLDER @ ''&page='' @ PAGE_PLACEHOLDER"

text \<open>
  \<^verbatim>\<open>BASE_DIR\<close> is the directory \<^verbatim>\<open>fmp\<close> beside the installed module; it is a parameter.
\<close>

definition NEWS_DATA_DIR :: "string \<Rightarrow> string" where
  "NEWS_DATA_DIR base_dir = path_join base_dir ''news''"

definition SOCIAL_SENTIMENT_DATA_DIR :: "string \<Rightarrow> string" where
  "SOCIAL_SENTIMENT_DATA_DIR base_dir = path_join base_dir ''social_sentiment''"

text \<open>
  The files of the store. A file holds the frame that \<^verbatim>\<open>to_csv\<close> wrote, index and
  header included, and \<^verbatim>\<open>read_csv\<close> with the date column as index gives it back; the CSV
  text itself is not modelled.
\<close>

type_synonym ('k, 'v) files = "string \<Rightarrow> ('k, 'v) dataframe option"

text \<open>
  \<^verbatim>\<open>read_data\<close>: False when there is no file at the path, else the frame is loaded.
\<close>

definition read_data :: "('k, 'v) files \<Rightarrow> ('k, 'v) datastorage \<Rightarrow> bool \<times> ('k, 'v) datastorage" where
  "read_data fs ds =
     (case fs (file_path ds) of
        None \<Rightarrow> (False, ds)
      | Some frame \<Rightarrow> (True, ds\<lparr>df := frame\<rparr>))"

text \<open>
  \<^verbatim>\<open>save_data(save_index = True)\<close> with no declared columns: the frame goes to the file
  at the store's path, with header and index.
\<close>

definition save_data :: "('k, 'v) files \<Rightarrow> ('k, 'v) datastorage \<Rightarrow> ('k, 'v) files" where
  "save_data fs ds = fs(file_path ds := Some (df ds))"

text \<open>\<^verbatim>\<open>add_column(name)\<close>: \<^verbatim>\<open>df[name] = None\<close>, a column of nulls.\<close>

definition add_column :: "string \<Rightarrow> ('k, 'v) datastorage \<Rightarrow> ('k, 'v) datastorage" where
  "add_column column_name ds = ds\<lparr>df := loc_col_nan column_name (df ds)\<rparr>"

record ('k, 'v) fmp =
  symbol :: string
  news_ds :: "('k, 'v) datastorage"
  social_sentiment_ds :: "('k, 'v) datastorage"

text \<open>
  \<^verbatim>\<open>df.set_index(label)\<close> on a frame that has the column: the column's cells become the
  row labels and the column goes. Callers check that the column is there.
\<close>

definition set_index :: "string \<Rightarrow> ('k, 'v) dataframe \<Rightarrow> ('v option, 'v) dataframe" where
  "set_index c frame =
     \<lparr>columns = filter (\<lambda>c'. c' \<noteq> c) (columns frame),
      rows = map (\<lambda>(k, r). (r c, r(c := None))) (rows frame)\<rparr>"

text \<open>
  \<^verbatim>\<open>_load_data\<close>. A store with no file yet gets a date column that at once becomes the
  index, and the news store then gets its two sentiment columns.
\<close>

definition new_store :: "('k, 'v) datastorage \<Rightarrow> ('v option, 'v) datastorage" where
  "new_store ds = \<lparr>file_path = file_path ds, df = set_index ''date'' (df (add_column ''date'' ds))\<rparr>"

definition load_data :: "('v option, 'v) files \<Rightarrow> ('v option, 'v) fmp \<Rightarrow> ('v option, 'v) fmp" where
  "load_data fs self =
     (let (news_read, news) = read_data fs (news_ds self);
          news = (if \<not> news_read
                  then add_column ''sentiment_probability'' (add_column ''sentiment'' (new_store news))
                  else news);
          (social_read, social) = read_data fs (social_sentiment_ds self);
          social = (if \<not> social_read then new_store social else social)
      in self\<lparr>news_ds := news, social_sentiment_ds := social\<rparr>)"

definition FMP_init ::
  "string \<Rightarrow> ('v option, 'v) files \<Rightarrow> string \<Rightarrow> ('v option, 'v) fmp" where
  "FMP_init base_dir fs symbol0 =
     (let dot_index = find_char CHR ''.'' symbol0;
          symbol = (if dot_index > -1 then take (nat dot_index) symbol0 else symbol0)
      in load_data fs
           \<lparr>symbol = symbol,
            news_ds = DataStorage symbol (NEWS_DATA_DIR base_dir),
            social_sentiment_ds = DataStorage symbol (SOCIAL_SENTIMENT_DATA_DIR base_dir)\<rparr>)"

text \<open>The URL template that \<^verbatim>\<open>read_news\<close> hands to \<^verbatim>\<open>_read_entries\<close>.\<close>

definition news_url :: "('k, 'v) fmp \<Rightarrow> string" where
  "news_url self = str_replace SYMBOL_PLACEHOLDER (symbol self) NEWS_URL"

section \<open>Date sorter: \<^verbatim>\<open>DataStorage.sort_ds_dates\<close>\<close>

text \<open>
  The date format is a constant of a module that is not among the sources
  (\<^verbatim>\<open>dateoperations\<close>), so parsing and printing under it are parameters: \<open>parse\<close> is
  \<^verbatim>\<open>pd.to_datetime(_, format = date_format)\<close> on one label, \<open>None\<close> where pandas raises,
  and \<open>render\<close> is \<^verbatim>\<open>strftime(date_format)\<close>.

  \<^verbatim>\<open>sort_index(ascending = False)\<close> returns at once when the index is already
  non-increasing; otherwise it reorders the rows with an unstable sort, so the order of
  rows with equal dates is not fixed. The sort is a parameter; \<open>sorts_desc\<close> says what
  every such sort does.
\<close>

definition sorts_desc :: "(('d::linorder \<times> 'a) list \<Rightarrow> ('d \<times> 'a) list) \<Rightarrow> bool" where
  "sorts_desc srt = (\<forall>xs. mset (srt xs) = mset xs \<and> sorted_wrt (\<lambda>a b. a \<ge> b) (map fst (srt xs)))"

definition sort_index_desc ::
  "(('d::linorder \<times> 'a) list \<Rightarrow> ('d \<times> 'a) list) \<Rightarrow> ('d \<times> 'a) list \<Rightarrow> ('d \<times> 'a) list" where
  "sort_index_desc srt xs = (if sorted_wrt (\<lambda>a b. a \<ge> b) (map fst xs) then xs else srt xs)"

text \<open>
  The four statements of \<^verbatim>\<open>sort_ds_dates\<close>: parse the labels (on failure nothing has
  been assigned yet), sort the rows newest first, print the dates back, and reorder the
  columns by \<^verbatim>\<open>sorted(columns)\<close>, which \<^verbatim>\<open>reindex\<close> refuses for a repeated label unless
  the columns are in that order already. The result is the exception, if any, and the
  frame the store holds afterwards.
\<close>

definition sort_ds_dates ::
  "(('d::linorder \<times> (string \<Rightarrow> 'v option)) list \<Rightarrow> ('d \<times> (string \<Rightarrow> 'v option)) list) \<Rightarrow>
   ('k \<Rightarrow> 'd option) \<Rightarrow> ('d \<Rightarrow> 'k) \<Rightarrow> ('k, 'v) dataframe \<Rightarrow> 'v error option \<times> ('k, 'v) dataframe" where
  "sort_ds_dates srt parse render frame =
     (case those (map parse (df_index frame)) of
        None \<Rightarrow> (Some DateFormatError, frame)
      | Some dates \<Rightarrow>
          (let dated = zip dates (map snd (rows frame));
               sorted_rows = sort_index_desc srt dated;
               frame1 = frame\<lparr>rows := map (\<lambda>(d, r). (render d, r)) sorted_rows\<rparr>
           in if distinct (columns frame1) \<or> sort (columns frame1) = columns frame1
              then (None, frame1\<lparr>columns := sort (columns frame1)\<rparr>)
              else (Some DuplicateLabels, frame1)))"

section \<open>Multi-table intersector: \<^verbatim>\<open>DataStorage.intersect_on_column\<close>\<close>

definition cells_of :: "string \<Rightarrow> ('k, 'v) dataframe \<Rightarrow> 'v option list" where
  "cells_of c frame = map (\<lambda>(k, r). r c) (rows frame)"

text \<open>
  The join column of \<^verbatim>\<open>pd.merge_ordered(left, right, how = "inner", on = column)\<close>: one row
  for every pair of a left and a right row with equal cells, nulls matching nulls, in the
  order of the key. The other columns of the join are never read.
\<close>

definition merge_ordered_on :: "'v::linorder option list \<Rightarrow> 'v option list \<Rightarrow> 'v option list" where
  "merge_ordered_on xs ys = sort (concat (map (\<lambda>x. filter (\<lambda>y. y = x) ys) xs))"

text \<open>
  \<^verbatim>\<open>dataframes[1]\<close> raises IndexError on a list of fewer than two frames, and
  \<^verbatim>\<open>merge_ordered\<close> and \<^verbatim>\<open>df[column_name]\<close> raise KeyError on a frame without the column.
\<close>

definition intersect_on_column ::
  "('k, 'v::linorder) dataframe list \<Rightarrow> string \<Rightarrow> 'v error + ('k, 'v) dataframe list" where
  "intersect_on_column dataframes column_name =
     (if length dataframes < 2 then Inl IndexError
      else if \<exists>frame \<in> set dataframes. column_name \<notin> set (columns frame)
      then Inl (KeyError column_name)
      else
        (let intersection_df =
               fold (\<lambda>frame acc. merge_ordered_on acc (cells_of column_name frame))
                 (drop 2 dataframes)
                 (merge_ordered_on (cells_of column_name (dataframes ! 0))
                    (cells_of column_name (dataframes ! 1)))
         in Inr (map (\<lambda>frame.
                   select_rows (map (\<lambda>x. x \<in> set intersection_df) (cells_of column_name frame)) frame)
                 dataframes)))"

section \<open>Rate-limited paginated fetcher: \<^verbatim>\<open>FMP._read_entries\<close>\<close>

text \<open>
  A record of the remote source is a JSON object with scalar values: its fields in order,
  a JSON null being \<open>None\<close>.
\<close>

type_synonym 'v json_record = "(string \<times> 'v option) list"

text \<open>The \<^verbatim>\<open>cross_check\<close> dictionary.\<close>

record 'v cross_check =
  series :: "'v option list"
  dict_key :: string

text \<open>
  What the fetcher meets outside the program: the JSON list the remote source answers to a
  URL, the API key of the \<^verbatim>\<open>config\<close> module, and the clock. \<^verbatim>\<open>time.time()\<close> is read twice
  in a pass of the loop; \<open>busy w n\<close> is the time between the two readings of pass \<open>n\<close>
  (the request and its parsing), and \<open>idle w n\<close> is the time that passes after pass \<open>n\<close>
  until the next pass reads the clock, beyond what \<^verbatim>\<open>time.sleep\<close> was asked for. Times are
  exact reals; the rounding of Python's floats is not modelled.
\<close>

record 'v world =
  respond :: "string \<Rightarrow> 'v json_record list"
  fmp_api_key :: string
  start_time :: real
  busy :: "nat \<Rightarrow> real"
  idle :: "nat \<Rightarrow> real"

definition CALL_DELAY :: real where
  "CALL_DELAY = 60 / 300"

text \<open>
  The variables of the paging loop, the clock, and the readings of \<^verbatim>\<open>loop_start_time\<close>
  so far, one for each request issued.
\<close>

record 'v paging =
  curr_page :: int
  response_list :: "'v json_record list"
  clock :: real
  request_times :: "real list"

datatype stop = EMPTY_PAGE | CROSS_CHECK_HIT

datatype 'v outcome = Paging | Stopped stop | Raised "'v error"

text \<open>
  The test behind the second \<^verbatim>\<open>break\<close>: with a cross-check, the designated field of the
  last record so far is looked up (KeyError if the record lacks it) and compared with the
  series; a null equals nothing.
\<close>

definition cross_check_hit ::
  "'v cross_check option \<Rightarrow> 'v json_record list \<Rightarrow> 'v error + bool" where
  "cross_check_hit cross_check records =
     (case cross_check of
        None \<Rightarrow> Inr False
      | Some cc \<Rightarrow>
          (case map_of (last records) (dict_key cc) of
             None \<Rightarrow> Inl (KeyError (dict_key cc))
           | Some x \<Rightarrow> Inr (x \<noteq> None \<and> x \<in> set (series cc))))"

text \<open>
  The \<^verbatim>\<open>while True\<close> loop. It ends only by one of its two \<^verbatim>\<open>break\<close>s or an exception, so
  the model counts passes down from a bound and answers \<open>Paging\<close> when the bound is used
  up with the loop still running.
\<close>

fun read_pages ::
  "nat \<Rightarrow> 'v world \<Rightarrow> string \<Rightarrow> 'v cross_check option \<Rightarrow> 'v paging \<Rightarrow> 'v outcome \<times> 'v paging" where
  "read_pages 0 w url cross_check st = (Paging, st)"
| "read_pages (Suc passes) w url cross_check st =
     (let pass = length (request_times st);
          loop_start_time = clock st;
          page = curr_page st + 1;
          curr_url = str_replace PAGE_PLACEHOLDER (str_int page) url;
          curr_response_list = respond w curr_url;
          st1 = st\<lparr>curr_page := page,
                   clock := loop_start_time + busy w pass,
                   request_times := request_times st @ [loop_start_time]\<rparr>
      in if length curr_response_list = 0 then (Stopped EMPTY_PAGE, st1)
         else
           (let st2 = st1\<lparr>response_list := response_list st1 @ curr_response_list\<rparr>
            in case cross_check_hit cross_check (response_list st2) of
                 Inl e \<Rightarrow> (Raised e, st2)
               | Inr True \<Rightarrow> (Stopped CROSS_CHECK_HIT, st2)
               | Inr False \<Rightarrow>
                   (let loop_end_time = clock st2;
                        loop_total_time = loop_end_time - loop_start_time;
                        loop_delay = CALL_DELAY - loop_total_time;
                        st3 = st2\<lparr>clock := loop_end_time
                                   + (if loop_delay > 0 then loop_delay else 0) + idle w pass\<rparr>
                    in read_pages passes w url cross_check st3)))"

definition paging_start :: "'v world \<Rightarrow> 'v paging" where
  "paging_start w = \<lparr>curr_page = -1, response_list = [], clock = start_time w, request_times = []\<rparr>"

text \<open>
  The runs of the loop are described by the answer to the request for page \<open>p\<close>
  (0-based) of a URL template and by the batch after pages \<open>0\<close> to \<open>p\<close>.
\<close>

definition page_of :: "'v world \<Rightarrow> string \<Rightarrow> nat \<Rightarrow> 'v json_record list" where
  "page_of w url p = respond w (str_replace PAGE_PLACEHOLDER (str_int (int p)) url)"

definition batch_upto :: "'v world \<Rightarrow> string \<Rightarrow> nat \<Rightarrow> 'v json_record list" where
  "batch_upto w url p = concat (map (page_of w url) [0..<Suc p])"

text \<open>
  A list of request times is paced when each request starts after the one before it by
  the time that pass was busy, the sleep \<open>max 0 (CALL_DELAY - busy)\<close> and the idle time of
  the pass.
\<close>

definition paced :: "'v world \<Rightarrow> real list \<Rightarrow> bool" where
  "paced w ts =
     (\<forall>j. Suc j < length ts \<longrightarrow>
        ts ! Suc j = ts ! j + busy w j + max 0 (CALL_DELAY - busy w j) + idle w j)"

text \<open>The labels of a list in the order of their first occurrence.\<close>

definition ordered_union :: "'a list \<Rightarrow> 'a list" where
  "ordered_union xs = fold (\<lambda>x acc. if x \<in> set acc then acc else acc @ [x]) xs []"

text \<open>\<^verbatim>\<open>record.get(field)\<close>: the value of a field, null when the record has no such field.\<close>

definition record_value :: "'v json_record \<Rightarrow> string \<Rightarrow> 'v option" where
  "record_value r c = (case map_of r c of None \<Rightarrow> None | Some x \<Rightarrow> x)"

text \<open>
  \<^verbatim>\<open>pd.json_normalize\<close> of flat records: a row for each record under a range index, the
  columns being the fields in the order in which they first occur; a field that a record
  lacks is null in its row.
\<close>

definition json_normalize :: "'v json_record list \<Rightarrow> (nat, 'v) dataframe" where
  "json_normalize records =
     \<lparr>columns = ordered_union (concat (map (map fst) records)),
      rows = map (\<lambda>(i, r). (i, record_value r)) (enumerate 0 records)\<rparr>"

text \<open>
  \<^verbatim>\<open>df.rename(columns = f)\<close>. Cells are addressed by label, so a new label reads the cell
  of the first old label that is renamed to it.
\<close>

definition rename_columns :: "(string \<Rightarrow> string) \<Rightarrow> ('k, 'v) dataframe \<Rightarrow> ('k, 'v) dataframe" where
  "rename_columns f frame =
     \<lparr>columns = map f (columns frame),
      rows = map (\<lambda>(k, r). (k, \<lambda>c'. case find (\<lambda>c. f c = c') (columns frame) of
                                      None \<Rightarrow> None | Some c \<Rightarrow> r c)) (rows frame)\<rparr>"

text \<open>
  \<^verbatim>\<open>re.sub(r'(?<!^)(?=[A-Z])', '_', name).lower()\<close>: an underscore goes before every
  capital A to Z that is not the first character, then the name is lower-cased (here: its
  ASCII capitals).
\<close>

definition is_upper :: "char \<Rightarrow> bool" where
  "is_upper c = (CHR ''A'' \<le> c \<and> c \<le> CHR ''Z'')"

definition lower_char :: "char \<Rightarrow> char" where
  "lower_char c = (if is_upper c then char_of (of_char c + (32 :: nat)) else c)"

fun underscore_caps :: "string \<Rightarrow> string" where
  "underscore_caps [] = []"
| "underscore_caps (c # cs) =
     (if is_upper c then CHR ''_'' # c # underscore_caps cs else c # underscore_caps cs)"

definition camel_case_to_snake_case :: "string \<Rightarrow> string" where
  "camel_case_to_snake_case name =
     map lower_char (case name of [] \<Rightarrow> [] | c # cs \<Rightarrow> c # underscore_caps cs)"

text \<open>
  \<^verbatim>\<open>_read_entries\<close>. \<open>None\<close> means that the loop was still paging when the bound on its
  passes was used up. After the loop: NoData for an empty batch; the frame of the batch;
  for the news endpoint \<^verbatim>\<open>publishedDate\<close> is renamed to \<^verbatim>\<open>date\<close>; \<^verbatim>\<open>set_index("date")\<close>
  raises KeyError when there is no such column, which the source turns into the KeyError
  that carries \<^verbatim>\<open>response_df.iloc[0, :].values\<close>; last the columns are renamed to snake
  case. A batch with both a \<^verbatim>\<open>publishedDate\<close> and a \<^verbatim>\<open>date\<close> field is not modelled: pandas
  then builds an index from two columns of one label, which a frame with one label for
  each row cannot hold, and the model answers DuplicateLabels in its place.
\<close>

definition read_entries ::
  "nat \<Rightarrow> 'v world \<Rightarrow> string \<Rightarrow> 'v cross_check option \<Rightarrow>
   ('v error + ('v option, 'v) dataframe) option" where
  "read_entries passes w url0 cross_check =
     (let url = str_replace API_KEY_PLACEHOLDER (fmp_api_key w) url0;
          is_news = startswith url NEWS_BASE_URL
      in case read_pages passes w url cross_check (paging_start w) of
           (Paging, st) \<Rightarrow> None
         | (Raised e, st) \<Rightarrow> Some (Inl e)
         | (Stopped reason, st) \<Rightarrow>
             if length (response_list st) = 0 then Some (Inl NoData)
             else
               (let response_df0 = json_normalize (response_list st);
                    response_df =
                      (if is_news
                       then rename_columns (\<lambda>c. if c = ''publishedDate'' then ''date'' else c)
                              response_df0
                       else response_df0)
                in if ''date'' \<notin> set (columns response_df)
                   then Some (Inl (MissingKey
                          (map (snd (hd (rows response_df))) (columns response_df))))
                   else if length (filter (\<lambda>c. c = ''date'') (columns response_df)) > 1
                   then Some (Inl DuplicateLabels)
                   else Some (Inr (rename_columns camel_case_to_snake_case
                          (set_index ''date'' response_df)))))"

section \<open>The synchronisation run: \<^verbatim>\<open>FMP.read_news\<close>\<close>

text \<open>
  \<^verbatim>\<open>entries.drop(columns = labels)\<close>: KeyError when a label is not a column.
\<close>

definition drop_columns ::
  "string list \<Rightarrow> ('k, 'v) dataframe \<Rightarrow> 'v error + ('k, 'v) dataframe" where
  "drop_columns labels frame =
     (case filter (\<lambda>l. l \<notin> set (columns frame)) labels of
        l # ls \<Rightarrow> Inl (KeyError l)
      | [] \<Rightarrow> Inr \<lparr>columns = filter (\<lambda>c. c \<notin> set labels) (columns frame),
                   rows = map (\<lambda>(k, r). (k, \<lambda>c. if c \<in> set labels then None else r c))
                            (rows frame)\<rparr>)"

text \<open>
  The cross-check state that \<^verbatim>\<open>read_news\<close> configures: none for an empty store, else the
  title column of the store (KeyError if the store has no such column).
\<close>

definition news_cross_check :: "('k, 'v) dataframe \<Rightarrow> 'v error + 'v cross_check option" where
  "news_cross_check frame =
     (if length (rows frame) > 0
      then (case column_cells frame ''title'' of
              Inl e \<Rightarrow> Inl e
            | Inr titles \<Rightarrow> Inr (Some \<lparr>series = titles, dict_key = ''title''\<rparr>))
      else Inr None)"

text \<open>
  \<^verbatim>\<open>read_news\<close> on the object and the files: fetch, drop two columns, merge, sort, save.
  The result is \<open>None\<close> when the paging did not end within the bound, else the exception,
  if any, with the object and the files as the call leaves them. The store's frame is
  mutated in place, so what the merge or the sort did before an exception stays.
\<close>

definition set_news_df :: "('k, 'v) dataframe \<Rightarrow> ('k, 'v) fmp \<Rightarrow> ('k, 'v) fmp" where
  "set_news_df frame self = self\<lparr>news_ds := (news_ds self)\<lparr>df := frame\<rparr>\<rparr>"

definition read_news ::
  "nat \<Rightarrow> 'v world \<Rightarrow> ('v option \<Rightarrow> bool) \<Rightarrow>
   ('v option list \<Rightarrow> 'v option list) \<Rightarrow> (string list \<Rightarrow> string list) \<Rightarrow>
   (('d::linorder \<times> (string \<Rightarrow> 'v option)) list \<Rightarrow> ('d \<times> (string \<Rightarrow> 'v option)) list) \<Rightarrow>
   ('v option \<Rightarrow> 'd option) \<Rightarrow> ('d \<Rightarrow> 'v option) \<Rightarrow>
   ('v option, 'v) fmp \<times> ('v option, 'v) files \<Rightarrow>
   ('v error option \<times> ('v option, 'v) fmp \<times> ('v option, 'v) files) option" where
  "read_news passes w self_equal row_order col_order srt parse render state =
     (let (self, fs) = state;
          url = news_url self
      in case news_cross_check (df (news_ds self)) of
           Inl e \<Rightarrow> Some (Some e, self, fs)
         | Inr cross_check \<Rightarrow>
             (case read_entries passes w url cross_check of
                None \<Rightarrow> None
              | Some (Inl e) \<Rightarrow> Some (Some e, self, fs)
              | Some (Inr entries0) \<Rightarrow>
                  (case drop_columns [''symbol'', ''image''] entries0 of
                     Inl e \<Rightarrow> Some (Some e, self, fs)
                   | Inr entries \<Rightarrow>
                       (case add_entries_to_ds self_equal row_order col_order
                               (df (news_ds self)) entries of
                          (Some e, merged) \<Rightarrow> Some (Some e, set_news_df merged self, fs)
                        | (None, merged) \<Rightarrow>
                            (case sort_ds_dates srt parse render merged of
                               (Some e, sorted_df) \<Rightarrow> Some (Some e, set_news_df sorted_df self, fs)
                             | (None, sorted_df) \<Rightarrow>
                                 (let self' = set_news_df sorted_df self
                                  in Some (None, self', save_data fs (news_ds self'))))))))"

text \<open>The URL template of a news run after the API key is filled in.\<close>

definition fetch_url :: "'v world \<Rightarrow> ('k, 'v) fmp \<Rightarrow> string" where
  "fetch_url w self = str_replace API_KEY_PLACEHOLDER (fmp_api_key w) (news_url self)"

section \<open>Example inputs\<close>

text \<open>A store table and a batch with another date and one more column.\<close>

definition S0 :: "(string, nat) dataframe" where
  "S0 = \<lparr>columns = [''title''], rows = [(''2021-01-02'', (\<lambda>c. None)(''title'' := Some 7))]\<rparr>"

definition B0 :: "(string, nat) dataframe" where
  "B0 = \<lparr>columns = [''title'', ''url''],
         rows = [(''2021-01-03'', (\<lambda>c. None)(''title'' := Some 8, ''url'' := Some 9))]\<rparr>"

text \<open>
  A store table with one row under the label NaN (\<open>None\<close>), and a batch with one row
  under that label and no site column.
\<close>

definition S1 :: "(string option, nat) dataframe" where
  "S1 = \<lparr>columns = [''title'', ''site''],
         rows = [(None, (\<lambda>c. None)(''title'' := Some 5, ''site'' := Some 3))]\<rparr>"

definition B1 :: "(string option, nat) dataframe" where
  "B1 = \<lparr>columns = [''title''], rows = [(None, (\<lambda>c. None)(''title'' := Some 6))]\<rparr>"

text \<open>An example table with dates as numbers of days, and its date format.\<close>

definition T0 :: "(string, nat) dataframe" where
  "T0 = \<lparr>columns = [''title'', ''site''],
         rows = [(''d1'', (\<lambda>c. None)(''title'' := Some 7)),
                 (''d3'', (\<lambda>c. None)(''title'' := Some 8)),
                 (''d2'', (\<lambda>c. None)(''site'' := Some 9))]\<rparr>"

definition parse0 :: "string \<Rightarrow> nat option" where
  "parse0 s = (if s = ''d1'' then Some 1 else if s = ''d2'' then Some 2
               else if s = ''d3'' then Some 3 else None)"

definition render0 :: "nat \<Rightarrow> string" where
  "render0 d = (if d = 1 then ''d1'' else if d = 2 then ''d2'' else if d = 3 then ''d3'' else ''?'')"

text \<open>A second example table, sharing the title column with \<open>T0\<close>.\<close>

definition T1 :: "(string, nat) dataframe" where
  "T1 = \<lparr>columns = [''title''],
         rows = [(''x'', (\<lambda>c. None)(''title'' := Some 8)),
                 (''y'', (\<lambda>c. None)),
                 (''z'', (\<lambda>c. None)(''title'' := Some 5))]\<rparr>"

text \<open>A descending sort: the stable ascending sort, reversed.\<close>

definition newest_first :: "('d::linorder \<times> 'a) list \<Rightarrow> ('d \<times> 'a) list" where
  "newest_first xs = rev (sort_key fst xs)"

text \<open>
  A source with two pages of news behind the URL template \<^verbatim>\<open>p$$$\<close>, a symbol's object
  over an empty file system, a source that knows no symbol, and a source whose records
  carry no date.
\<close>

definition W0 :: "nat world" where
  "W0 = \<lparr>respond = (\<lambda>u.
            if u = ''p0'' then [[(''title'', Some 5), (''publishedDate'', Some 20)],
                                [(''title'', Some 6), (''publishedDate'', Some 19)]]
            else if u = ''p1'' then [[(''title'', Some 8), (''publishedDate'', Some 18)],
                                [(''title'', Some 7), (''publishedDate'', Some 17)]]
            else []),
          fmp_api_key = ''k'', start_time = 100, busy = (\<lambda>n. 1 / 20), idle = (\<lambda>n. 0)\<rparr>"

definition FMP0 :: "(nat option, nat) fmp" where
  "FMP0 = FMP_init ''/srv'' (\<lambda>p. None) ''BMW.DE''"

definition W1 :: "nat world" where
  "W1 = \<lparr>respond = (\<lambda>u. []), fmp_api_key = ''k'', start_time = 0,
          busy = (\<lambda>n. 1 / 20), idle = (\<lambda>n. 0)\<rparr>"

definition W2 :: "nat world" where
  "W2 = \<lparr>respond = (\<lambda>u.
            if u = ''https://financialmodelingprep.com/api/v3/stock_news?tickers=BMW&apikey=k&page=0''
            then [[(''title'', Some 5), (''site'', Some 3)], [(''title'', Some 6), (''site'', None)]]
            else []),
          fmp_api_key = ''k'', start_time = 0, busy = (\<lambda>n. 1 / 20), idle = (\<lambda>n. 0)\<rparr>"

section \<open>Properties of the merge engine\<close>

lemma set_listing_Nil: "set_listing f \<Longrightarrow> f [] = []"
  by (metis set_listing_def set_empty)

lemma label_listing_set: "label_listing self_equal f \<Longrightarrow> set (f xs) = set xs"
  by (simp add: label_listing_def)

subsection \<open>Setting rows to null\<close>

lemma df_index_loc_row_nan:
  "df_index (loc_row_nan k fr) =
     (if k \<in> set (df_index fr) then df_index fr else df_index fr @ [k])"
  by (auto simp: loc_row_nan_def df_index_def split_def)

lemma loc_row_nan_labels:
  "columns (loc_row_nan k fr) = columns fr"
  "set (df_index (loc_row_nan k fr)) = insert k (set (df_index fr))"
  by (auto simp: df_index_loc_row_nan) (simp add: loc_row_nan_def)

lemma fold_loc_row_nan_labels:
  "columns (fold loc_row_nan ks fr) = columns fr"
  "set (df_index (fold loc_row_nan ks fr)) = set (df_index fr) \<union> set ks"
  by (induction ks arbitrary: fr) (auto simp: loc_row_nan_labels)

lemma loc_row_nan_row:
  assumes "i < length (rows fr)"
  shows "i < length (rows (loc_row_nan k fr))"
    and "label_at (loc_row_nan k fr) i = label_at fr i"
    and "label_at fr i \<noteq> k \<Longrightarrow> snd (rows (loc_row_nan k fr) ! i) = snd (rows fr ! i)"
  using assms
  by (auto simp: loc_row_nan_def label_at_def nth_append split_def)

lemma fold_loc_row_nan_row:
  assumes "i < length (rows fr)"
  shows "i < length (rows (fold loc_row_nan ks fr)) \<and>
     label_at (fold loc_row_nan ks fr) i = label_at fr i \<and>
     (label_at fr i \<notin> set ks \<longrightarrow> snd (rows (fold loc_row_nan ks fr) ! i) = snd (rows fr ! i))"
  using assms
proof (induction ks arbitrary: fr)
  case Nil
  then show ?case by simp
next
  case (Cons k ks)
  note step = loc_row_nan_row [OF Cons.prems, of k]
  from Cons.IH [OF step(1)] step(2,3) show ?case
    by auto
qed

lemma fold_loc_row_nan_present:
  "set ks \<subseteq> set (df_index fr) \<Longrightarrow>
   fold loc_row_nan ks fr =
   fr\<lparr>rows := map (\<lambda>(k, r). if k \<in> set ks
                  then (k, \<lambda>c. if c \<in> set (columns fr) then None else r c)
                  else (k, r)) (rows fr)\<rparr>"
proof (induction ks arbitrary: fr)
  case Nil
  then show ?case by (simp add: split_def)
next
  case (Cons k ks)
  let ?fr = "loc_row_nan k fr"
  from Cons.prems have step: "?fr =
      fr\<lparr>rows := map (\<lambda>(k', r). if k' = k
                  then (k', \<lambda>c. if c \<in> set (columns fr) then None else r c)
                  else (k', r)) (rows fr)\<rparr>"
    by (simp add: loc_row_nan_def)
  from Cons.prems have "set ks \<subseteq> set (df_index ?fr)"
    by (auto simp: loc_row_nan_labels)
  then have "fold loc_row_nan ks ?fr =
      ?fr\<lparr>rows := map (\<lambda>(k, r). if k \<in> set ks
                  then (k, \<lambda>c. if c \<in> set (columns ?fr) then None else r c)
                  else (k, r)) (rows ?fr)\<rparr>"
    by (rule Cons.IH)
  then show ?case
    unfolding loc_row_nan_labels
    by (auto simp: step split_def fun_eq_iff intro!: dataframe.equality)
qed

lemma nulled_loc_row_nan_self: "nulled (loc_row_nan k fr) k"
proof (cases "k \<in> set (df_index fr)")
  case True
  then show ?thesis
    by (auto simp: nulled_def loc_row_nan_def split: if_splits)
next
  case False
  then have "\<And>r. (k, r) \<notin> set (rows fr)"
    by (force simp: df_index_def)
  with False show ?thesis
    by (auto simp: nulled_def loc_row_nan_def)
qed

lemma nulled_loc_row_nan: "nulled fr k \<Longrightarrow> nulled (loc_row_nan j fr) k"
  by (auto simp: nulled_def loc_row_nan_def split: if_splits)

lemma nulled_fold_loc_row_nan:
  "k \<in> set ks \<or> nulled fr k \<Longrightarrow> nulled (fold loc_row_nan ks fr) k"
proof (induction ks arbitrary: fr)
  case Nil
  then show ?case by simp
next
  case (Cons j ks)
  have "k \<in> set ks \<or> nulled (loc_row_nan j fr) k"
  proof (cases "k = j")
    case True
    then show ?thesis by (simp add: nulled_loc_row_nan_self)
  next
    case False
    with Cons.prems show ?thesis by (auto intro: nulled_loc_row_nan)
  qed
  then show ?case
    by (simp add: Cons.IH)
qed

lemma wipe_nulled:
  assumes "\<forall>k\<in>K. nulled fr k"
  shows "fr\<lparr>rows := map (\<lambda>(k, r). if k \<in> K
                  then (k, \<lambda>c. if c \<in> set (columns fr) then None else r c)
                  else (k, r)) (rows fr)\<rparr> = fr"
proof -
  have "map (\<lambda>(k, r). if k \<in> K
                  then (k, \<lambda>c. if c \<in> set (columns fr) then None else r c)
                  else (k, r)) (rows fr) = rows fr"
  proof (rule map_idI)
    fix x assume x: "x \<in> set (rows fr)"
    obtain k r where kr: "x = (k, r)" by (cases x)
    show "(case x of (k, r) \<Rightarrow> if k \<in> K
                  then (k, \<lambda>c. if c \<in> set (columns fr) then None else r c)
                  else (k, r)) = x"
    proof (cases "k \<in> K")
      case True
      with assms x kr have "\<forall>c\<in>set (columns fr). r c = None"
        unfolding nulled_def by fastforce
      then have "(\<lambda>c. if c \<in> set (columns fr) then None else r c) = r"
        by (auto simp: fun_eq_iff)
      with True kr show ?thesis by simp
    next
      case False
      with kr show ?thesis by simp
    qed
  qed
  then show ?thesis by simp
qed

subsection \<open>Adding columns\<close>

lemma fold_loc_col_nan_fresh:
  "distinct cs \<Longrightarrow> set cs \<inter> set (columns fr) = {} \<Longrightarrow>
   fold loc_col_nan cs fr =
   fr\<lparr>columns := columns fr @ cs,
      rows := map (\<lambda>(k, r). (k, \<lambda>c. if c \<in> set cs then None else r c)) (rows fr)\<rparr>"
proof (induction cs arbitrary: fr)
  case Nil
  then show ?case by simp
next
  case (Cons c cs)
  let ?fr = "loc_col_nan c fr"
  from Cons.prems have cols: "columns ?fr = columns fr @ [c]"
    by (simp add: loc_col_nan_def)
  have rws: "rows ?fr = map (\<lambda>(k, r). (k, r(c := None))) (rows fr)"
    by (simp add: loc_col_nan_def)
  have more: "dataframe.more ?fr = dataframe.more fr"
    by (simp add: loc_col_nan_def)
  from Cons.prems cols have "distinct cs" and "set cs \<inter> set (columns ?fr) = {}"
    by auto
  then have "fold loc_col_nan cs ?fr =
      ?fr\<lparr>columns := columns ?fr @ cs,
          rows := map (\<lambda>(k, r). (k, \<lambda>c. if c \<in> set cs then None else r c)) (rows ?fr)\<rparr>"
    by (rule Cons.IH)
  then show ?case
    by (auto simp: cols rws more fun_eq_iff intro!: dataframe.equality)
qed

lemma nulled_add_columns:
  assumes "nulled fr k"
  shows "nulled (fr\<lparr>columns := columns fr @ cs,
      rows := map (\<lambda>(k, r). (k, \<lambda>c. if c \<in> set cs then None else r c)) (rows fr)\<rparr>) k"
  using assms by (auto simp: nulled_def)


lemma index_add_columns:
  "df_index (fr\<lparr>columns := cols,
      rows := map (\<lambda>(k, r). (k, \<lambda>c. if c \<in> set cs then None else r c)) (rows fr)\<rparr>) =
   df_index fr"
  by (simp add: df_index_def comp_def split_def)

subsection \<open>The overlay\<close>

lemma index_zip:
  "length xs = length ys \<Longrightarrow>
   map fst (map (\<lambda>((k, this), (k', that)). (k, g this that)) (zip xs ys)) = map fst xs"
  by (induction xs ys rule: list_induct2) auto

lemma DataFrame_update_labels:
  assumes "DataFrame_update D E = Inr D'"
  shows "columns D' = columns D \<and> df_index D' = df_index D"
proof (cases "distinct (df_index E)")
  case True
  with assms show ?thesis
    by (auto simp: DataFrame_update_def df_index_def split: if_splits)
next
  case False
  with assms have eq: "df_index E = df_index D"
    and D': "D' = D\<lparr>rows := map (\<lambda>((k, this), (k', that)). (k, \<lambda>c.
                  if c \<in> set (columns D) \<and> c \<in> set (columns E)
                  then (case that c of None \<Rightarrow> this c | Some v \<Rightarrow> Some v)
                  else this c)) (zip (rows D) (rows E))\<rparr>"
    by (auto simp: DataFrame_update_def split: if_splits)
  from eq have "length (rows D) = length (rows E)"
    by (metis df_index_def length_map)
  then show ?thesis
    unfolding D' df_index_def by (simp add: index_zip del: map_map)
qed

lemma aligned_absent: "k \<notin> set (df_index B) \<Longrightarrow> aligned B k c = None"
proof -
  assume "k \<notin> set (df_index B)"
  then have "map_of (rows B) k = None"
    by (simp add: df_index_def map_of_eq_None_iff)
  then show ?thesis
    by (simp add: aligned_def)
qed

lemma DataFrame_update_cell:
  assumes "DataFrame_update D E = Inr D'" and "distinct (df_index E)" and "i < length (rows D)"
  shows "label_at D' i = label_at D i"
    and "cell_at D' i c =
      (if c \<in> set (columns D)
       then (case aligned E (label_at D i) c of None \<Rightarrow> cell_at D i c | Some v \<Rightarrow> Some v)
       else cell_at D i c)"
  using assms
  by (auto simp: DataFrame_update_def label_at_def cell_at_def split_def split: if_splits option.splits)

lemma overlay_wiped_rows:
  assumes "\<forall>(k, r)\<in>set xs. k \<in> K \<longrightarrow> (\<forall>c\<in>C. r c = None)"
  shows "map (\<lambda>((k, this), (k', that)). (k, \<lambda>c.
                  if c \<in> C \<and> c \<in> C'
                  then (case that c of None \<Rightarrow> this c | Some v \<Rightarrow> Some v)
                  else this c))
           (zip (map (\<lambda>(k, r). if k \<in> K
                        then (k, \<lambda>c. if c \<in> C then None else r c)
                        else (k, r))
                   (map (\<lambda>((k, this), (k', that)). (k, \<lambda>c.
                          if c \<in> C \<and> c \<in> C'
                          then (case that c of None \<Rightarrow> this c | Some v \<Rightarrow> Some v)
                          else this c)) (zip xs ys))) ys) =
         map (\<lambda>((k, this), (k', that)). (k, \<lambda>c.
                  if c \<in> C \<and> c \<in> C'
                  then (case that c of None \<Rightarrow> this c | Some v \<Rightarrow> Some v)
                  else this c)) (zip xs ys)"
  using assms
proof (induction xs arbitrary: ys)
  case Nil
  then show ?case by simp
next
  case (Cons x xs)
  let ?ov = "\<lambda>((k, this), (k', that)). (k, \<lambda>c.
                  if c \<in> C \<and> c \<in> C'
                  then (case that c of None \<Rightarrow> this c | Some v \<Rightarrow> Some v)
                  else this c)"
  let ?wipe = "\<lambda>(k, r). if k \<in> K
                        then (k, \<lambda>c. if c \<in> C then None else r c)
                        else (k, r)"
  note IH = Cons.IH and prems = Cons.prems
  show ?case
  proof (cases ys)
    case Nil
    then show ?thesis by simp
  next
    case ys: (Cons y ys')
    obtain k r where x: "x = (k, r)" by (cases x)
    obtain k' t where y: "y = (k', t)" by (cases y)
    from prems have rest: "\<forall>(k, r)\<in>set xs. k \<in> K \<longrightarrow> (\<forall>c\<in>C. r c = None)"
      by simp
    from prems x have head: "k \<in> K \<longrightarrow> (\<forall>c\<in>C. r c = None)"
      by simp
    have hd: "?ov (?wipe (?ov (x, y)), y) = ?ov (x, y)"
      unfolding x y using head
      by (cases "k \<in> K") (auto simp: fun_eq_iff split: option.splits)
    have tl: "map ?ov (zip (map ?wipe (map ?ov (zip xs ys'))) ys') = map ?ov (zip xs ys')"
      using rest by (rule IH)
    show ?thesis
      unfolding ys by (simp only: zip_Cons_Cons list.map hd tl)
  qed
qed

lemma DataFrame_update_wiped:
  assumes nulled: "\<forall>k\<in>K. nulled D k" and upd: "DataFrame_update D E = Inr D'"
  shows "DataFrame_update
           (D'\<lparr>rows := map (\<lambda>(k, r). if k \<in> K
                  then (k, \<lambda>c. if c \<in> set (columns D') then None else r c)
                  else (k, r)) (rows D')\<rparr>) E = Inr D'"
proof (cases "distinct (df_index E)")
  case True
  let ?ov = "\<lambda>(k, this). (k, \<lambda>c.
                  if c \<in> set (columns D)
                  then (case aligned E k c of None \<Rightarrow> this c | Some v \<Rightarrow> Some v)
                  else this c)"
  let ?wipe = "\<lambda>(k, r). if k \<in> K
                  then (k, \<lambda>c. if c \<in> set (columns D) then None else r c)
                  else (k, r)"
  from upd True have ok: "distinct (columns E)"
    and D': "D' = D\<lparr>rows := map ?ov (rows D)\<rparr>"
    by (auto simp: DataFrame_update_def split: if_splits)
  have "map (?ov \<circ> (?wipe \<circ> ?ov)) (rows D) = map ?ov (rows D)"
  proof (rule map_cong [OF refl])
    fix x assume x: "x \<in> set (rows D)"
    obtain k r where kr: "x = (k, r)" by (cases x)
    show "(?ov \<circ> (?wipe \<circ> ?ov)) x = ?ov x"
    proof (cases "k \<in> K")
      case True
      with nulled x kr have "\<forall>c\<in>set (columns D). r c = None"
        unfolding nulled_def by fastforce
      with True kr show ?thesis
        by (auto simp: fun_eq_iff split: option.splits)
    next
      case False
      with kr show ?thesis
        by (auto simp: fun_eq_iff split: option.splits)
    qed
  qed
  then have again: "map ?ov (map ?wipe (map ?ov (rows D))) = map ?ov (rows D)"
    by (simp only: map_map)
  have "D'\<lparr>rows := map (\<lambda>(k, r). if k \<in> K
                  then (k, \<lambda>c. if c \<in> set (columns D') then None else r c)
                  else (k, r)) (rows D')\<rparr> = D\<lparr>rows := map ?wipe (map ?ov (rows D))\<rparr>"
    unfolding D' by (simp add: split_def del: map_map)
  moreover have "DataFrame_update (D\<lparr>rows := map ?wipe (map ?ov (rows D))\<rparr>) E =
      Inr (D\<lparr>rows := map ?ov (map ?wipe (map ?ov (rows D)))\<rparr>)"
    using ok True by (simp add: DataFrame_update_def del: map_map)
  ultimately show ?thesis
    by (simp only: again D')
next
  case False
  let ?ov = "\<lambda>((k, this), (k', that)). (k, \<lambda>c.
                  if c \<in> set (columns D) \<and> c \<in> set (columns E)
                  then (case that c of None \<Rightarrow> this c | Some v \<Rightarrow> Some v)
                  else this c)"
  let ?wipe = "\<lambda>(k, r). if k \<in> K
                  then (k, \<lambda>c. if c \<in> set (columns D) then None else r c)
                  else (k, r)"
  let ?W = "D\<lparr>rows := map ?wipe (map ?ov (zip (rows D) (rows E)))\<rparr>"
  from upd False have ok: "distinct (columns E)" and eq: "df_index E = df_index D"
    and D': "D' = D\<lparr>rows := map ?ov (zip (rows D) (rows E))\<rparr>"
    by (auto simp: DataFrame_update_def split: if_splits)
  from eq have len: "length (rows D) = length (rows E)"
    by (metis df_index_def length_map)
  from nulled have "\<forall>(k, r)\<in>set (rows D). k \<in> K \<longrightarrow> (\<forall>c\<in>set (columns D). r c = None)"
    unfolding nulled_def by fastforce
  then have again: "map ?ov (zip (map ?wipe (map ?ov (zip (rows D) (rows E)))) (rows E)) =
      map ?ov (zip (rows D) (rows E))"
    by (rule overlay_wiped_rows)
  have W: "D'\<lparr>rows := map (\<lambda>(k, r). if k \<in> K
                  then (k, \<lambda>c. if c \<in> set (columns D') then None else r c)
                  else (k, r)) (rows D')\<rparr> = ?W"
    unfolding D' by (simp add: split_def del: map_map)
  have "map fst (map ?wipe (map ?ov (zip (rows D) (rows E)))) =
        map fst (map ?ov (zip (rows D) (rows E)))"
    by (simp add: split_def)
  also from len have "\<dots> = map fst (rows D)"
    by (rule index_zip)
  finally have idx: "df_index ?W = df_index E"
    by (simp add: df_index_def eq [unfolded df_index_def] del: map_map)
  have cols: "columns ?W = columns D" and rws: "rows ?W = map ?wipe (map ?ov (zip (rows D) (rows E)))"
    by simp_all
  have "DataFrame_update ?W E =
      Inr (?W\<lparr>rows := map (\<lambda>((k, this), (k', that)). (k, \<lambda>c.
                  if c \<in> set (columns ?W) \<and> c \<in> set (columns E)
                  then (case that c of None \<Rightarrow> this c | Some v \<Rightarrow> Some v)
                  else this c)) (zip (rows ?W) (rows E))\<rparr>)"
    unfolding DataFrame_update_def using ok False idx by (simp only: if_True if_False simp_thms)
  also have "\<dots> = Inr (D\<lparr>rows := map ?ov (zip (map ?wipe (map ?ov (zip (rows D) (rows E)))) (rows E))\<rparr>)"
    unfolding cols rws by simp
  finally have "DataFrame_update ?W E = Inr D'"
    by (simp only: again D')
  then show ?thesis
    by (simp only: W)
qed

subsection \<open>The table the overlay is applied to\<close>

lemma merge_result:
  "add_entries_to_ds self_equal row_order col_order ds entries =
     (case DataFrame_update
             (fold loc_col_nan
                (col_order (filter (\<lambda>c. c \<notin> set (columns ds)) (columns entries)))
                (fold loc_row_nan
                   (row_order (filter (\<lambda>k. \<not> (self_equal k \<and> k \<in> set (df_index ds)))
                                 (df_index entries))) ds)) entries of
        Inl e \<Rightarrow> (Some e,
             fold loc_col_nan
                (col_order (filter (\<lambda>c. c \<notin> set (columns ds)) (columns entries)))
                (fold loc_row_nan
                   (row_order (filter (\<lambda>k. \<not> (self_equal k \<and> k \<in> set (df_index ds)))
                                 (df_index entries))) ds))
      | Inr ds3 \<Rightarrow> (None, ds3))"
  unfolding add_entries_to_ds_def Let_def by (rule refl)

lemma merge_prepared:
  fixes ds entries :: "('k, 'v) dataframe"
  assumes ro: "label_listing self_equal row_order" and co: "set_listing col_order"
  defines "mr \<equiv> row_order (filter (\<lambda>k. \<not> (self_equal k \<and> k \<in> set (df_index ds))) (df_index entries))"
    and "mc \<equiv> col_order (filter (\<lambda>c. c \<notin> set (columns ds)) (columns entries))"
  defines "ds2 \<equiv> fold loc_col_nan mc (fold loc_row_nan mr ds)"
  shows "set (df_index entries) \<subseteq> set (df_index ds2)"
    and "set (columns entries) \<subseteq> set (columns ds2)"
    and "\<forall>k\<in>{k \<in> set (df_index entries). \<not> self_equal k}. nulled ds2 k"
    and "i < length (rows ds) \<Longrightarrow> i < length (rows ds2) \<and> label_at ds2 i = label_at ds i"
    and "i < length (rows ds) \<Longrightarrow> c \<in> set (columns ds) \<Longrightarrow>
         self_equal (label_at ds i) \<or> label_at ds i \<notin> set (df_index entries) \<Longrightarrow>
         cell_at ds2 i c = cell_at ds i c"
proof -
  let ?ds1 = "fold loc_row_nan mr ds"
  from ro have mr: "set mr = {k \<in> set (df_index entries). \<not> (self_equal k \<and> k \<in> set (df_index ds))}"
    by (auto simp: label_listing_def mr_def)
  from co have mc: "distinct mc" "set mc = {c \<in> set (columns entries). c \<notin> set (columns ds)}"
    by (auto simp: set_listing_def mc_def)
  from mc have "set mc \<inter> set (columns ?ds1) = {}"
    by (auto simp: fold_loc_row_nan_labels)
  with mc(1) have shape: "ds2 = ?ds1\<lparr>columns := columns ?ds1 @ mc,
      rows := map (\<lambda>(k, r). (k, \<lambda>c. if c \<in> set mc then None else r c)) (rows ?ds1)\<rparr>"
    unfolding ds2_def by (rule fold_loc_col_nan_fresh)
  have idx: "df_index ds2 = df_index ?ds1"
    unfolding shape by (rule index_add_columns)
  have cols: "columns ds2 = columns ds @ mc"
    by (simp add: shape fold_loc_row_nan_labels)
  show "set (df_index entries) \<subseteq> set (df_index ds2)"
    by (auto simp: idx fold_loc_row_nan_labels mr)
  show "set (columns entries) \<subseteq> set (columns ds2)"
    by (auto simp: cols mc)
  show "\<forall>k\<in>{k \<in> set (df_index entries). \<not> self_equal k}. nulled ds2 k"
  proof
    fix k assume "k \<in> {k \<in> set (df_index entries). \<not> self_equal k}"
    then have "k \<in> set mr" by (simp add: mr)
    then have "nulled ?ds1 k" by (simp add: nulled_fold_loc_row_nan)
    then show "nulled ds2 k"
      unfolding shape by (rule nulled_add_columns)
  qed
  {
    assume i: "i < length (rows ds)"
    note row = fold_loc_row_nan_row [OF i, of mr]
    from row show "i < length (rows ds2) \<and> label_at ds2 i = label_at ds i"
      by (simp add: shape label_at_def split_def)
    assume c: "c \<in> set (columns ds)"
      and k: "self_equal (label_at ds i) \<or> label_at ds i \<notin> set (df_index entries)"
    from i have "label_at ds i \<in> set (df_index ds)"
      by (simp add: label_at_def df_index_def)
    with k have "label_at ds i \<notin> set mr"
      by (auto simp: mr)
    with row have "snd (rows ?ds1 ! i) = snd (rows ds ! i)"
      by simp
    moreover from c have "c \<notin> set mc"
      by (simp add: mc)
    ultimately show "cell_at ds2 i c = cell_at ds i c"
      using row by (simp add: shape cell_at_def split_def)
  }
qed

lemma merge_present:
  fixes D E :: "('k, 'v) dataframe"
  assumes ro: "label_listing self_equal row_order" and co: "set_listing col_order"
    and rows_in: "set (df_index E) \<subseteq> set (df_index D)"
    and cols_in: "set (columns E) \<subseteq> set (columns D)"
  defines "D1 \<equiv> D\<lparr>rows := map (\<lambda>(k, r). if k \<in> {k \<in> set (df_index E). \<not> self_equal k}
                  then (k, \<lambda>c. if c \<in> set (columns D) then None else r c)
                  else (k, r)) (rows D)\<rparr>"
  shows "add_entries_to_ds self_equal row_order col_order D E =
     (case DataFrame_update D1 E of Inl e \<Rightarrow> (Some e, D1) | Inr d \<Rightarrow> (None, d))"
proof -
  let ?mr = "row_order (filter (\<lambda>k. \<not> (self_equal k \<and> k \<in> set (df_index D))) (df_index E))"
  from cols_in have "filter (\<lambda>c. c \<notin> set (columns D)) (columns E) = []"
    by (auto simp: filter_empty_conv)
  then have mc: "col_order (filter (\<lambda>c. c \<notin> set (columns D)) (columns E)) = []"
    by (simp add: set_listing_Nil [OF co])
  from ro rows_in have mr: "set ?mr = {k \<in> set (df_index E). \<not> self_equal k}"
    by (auto simp: label_listing_def)
  with rows_in have "set ?mr \<subseteq> set (df_index D)"
    by auto
  then have "fold loc_row_nan ?mr D = D1"
    unfolding D1_def by (simp only: fold_loc_row_nan_present mr)
  then show ?thesis
    unfolding merge_result mc fold_simps by (simp only:)
qed

lemma label_listing_remdups: "label_listing self_equal remdups"
  by (simp add: label_listing_def)

lemma set_listing_remdups: "set_listing remdups"
  by (simp add: set_listing_def)

text \<open>
  Claim C1 (merge idempotence). For every store table \<open>S\<close> and every batch \<open>B\<close>, merging
  \<open>B\<close> into the table that one merge of \<open>B\<close> into \<open>S\<close> leaves gives exactly what the
  first merge gave: the same outcome and the same table (columns, rows, labels and cells).
  The order in which Python lists the missing labels is arbitrary, and a label that is
  not equal to itself may be listed more than once (any \<open>label_listing\<close>).
\<close>

theorem add_entries_to_ds_idempotent:
  fixes S B :: "('k, 'v) dataframe"
  assumes ro: "label_listing self_equal row_order" and co: "set_listing col_order"
  shows "add_entries_to_ds self_equal row_order col_order
           (snd (add_entries_to_ds self_equal row_order col_order S B)) B =
         (add_entries_to_ds self_equal row_order col_order S B
            :: 'v error option \<times> ('k, 'v) dataframe)"
proof -
  let ?once = "add_entries_to_ds self_equal row_order col_order S B
                 :: 'v error option \<times> ('k, 'v) dataframe"
  let ?K = "{k \<in> set (df_index B). \<not> self_equal k}"
  define ds2 where "ds2 = fold loc_col_nan
                (col_order (filter (\<lambda>c. c \<notin> set (columns S)) (columns B)))
                (fold loc_row_nan
                   (row_order (filter (\<lambda>k. \<not> (self_equal k \<and> k \<in> set (df_index S)))
                                 (df_index B))) S)"
  have once: "?once = (case DataFrame_update ds2 B of Inl e \<Rightarrow> (Some e, ds2) | Inr d \<Rightarrow> (None, d))"
    unfolding ds2_def by (rule merge_result)
  note prep = merge_prepared [OF ro co, where ds = S and entries = B, folded ds2_def]
  show ?thesis
  proof (cases "DataFrame_update ds2 B")
    case (Inl e)
    then have R: "?once = (Some e, ds2)"
      by (simp add: once)
    have "ds2\<lparr>rows := map (\<lambda>(k, r). if k \<in> ?K
                  then (k, \<lambda>c. if c \<in> set (columns ds2) then None else r c)
                  else (k, r)) (rows ds2)\<rparr> = ds2"
      using prep(3) by (rule wipe_nulled)
    then show ?thesis
      unfolding R snd_conv
      by (simp only: merge_present [OF ro co prep(1) prep(2)] Inl sum.case)
  next
    case (Inr D')
    then have R: "?once = (None, D')"
      by (simp add: once)
    note lab = DataFrame_update_labels [OF Inr]
    from prep(1) prep(2) lab
    have in': "set (df_index B) \<subseteq> set (df_index D')" "set (columns B) \<subseteq> set (columns D')"
      by simp_all
    have "DataFrame_update
           (D'\<lparr>rows := map (\<lambda>(k, r). if k \<in> ?K
                  then (k, \<lambda>c. if c \<in> set (columns D') then None else r c)
                  else (k, r)) (rows D')\<rparr>) B = Inr D'"
      using prep(3) Inr by (rule DataFrame_update_wiped)
    then show ?thesis
      unfolding R snd_conv
      by (simp only: merge_present [OF ro co in'] sum.case)
  qed
qed

theorem add_entries_to_ds_idempotent_witness:
  "label_listing (\<lambda>k. True) (remdups :: string list \<Rightarrow> string list) \<and>
   set_listing (remdups :: string list \<Rightarrow> string list) \<and>
   add_entries_to_ds (\<lambda>k. True) remdups remdups
     (snd (add_entries_to_ds (\<lambda>k. True) remdups remdups S0 B0)) B0 =
   add_entries_to_ds (\<lambda>k. True) remdups remdups S0 B0"
  using add_entries_to_ds_idempotent [of "\<lambda>k. True" remdups remdups S0 B0]
  by (simp add: label_listing_def set_listing_def)

text \<open>
  The frame of the merge for labels that are equal to themselves. A batch \<open>B\<close> with
  distinct labels and distinct columns is merged into a store \<open>S\<close>: every row of \<open>S\<close>
  keeps its position and its label, and a cell of \<open>S\<close> (row \<open>i\<close>, column \<open>c\<close> of \<open>S\<close>) in
  a row whose label is equal to itself, or is not a label of \<open>B\<close>, keeps its value when
  \<open>B\<close> aligned on that label and column holds no value.
\<close>

lemma add_entries_to_ds_keeps:
  fixes S B :: "('k, 'v) dataframe"
  assumes ro: "label_listing self_equal row_order" and co: "set_listing col_order"
    and B: "distinct (df_index B)" "distinct (columns B)"
    and i: "i < length (rows S)" and c: "c \<in> set (columns S)"
    and k: "self_equal (label_at S i) \<or> label_at S i \<notin> set (df_index B)"
    and none: "aligned B (label_at S i) c = None"
  shows "fst (add_entries_to_ds self_equal row_order col_order S B) = None"
    and "i < length (rows (snd (add_entries_to_ds self_equal row_order col_order S B)))"
    and "label_at (snd (add_entries_to_ds self_equal row_order col_order S B)) i = label_at S i"
    and "cell_at (snd (add_entries_to_ds self_equal row_order col_order S B)) i c = cell_at S i c"
proof -
  let ?once = "add_entries_to_ds self_equal row_order col_order S B
                 :: 'v error option \<times> ('k, 'v) dataframe"
  define ds2 where "ds2 = fold loc_col_nan
                (col_order (filter (\<lambda>c. c \<notin> set (columns S)) (columns B)))
                (fold loc_row_nan
                   (row_order (filter (\<lambda>k. \<not> (self_equal k \<and> k \<in> set (df_index S)))
                                 (df_index B))) S)"
  have once: "?once = (case DataFrame_update ds2 B of Inl e \<Rightarrow> (Some e, ds2) | Inr d \<Rightarrow> (None, d))"
    unfolding ds2_def by (rule merge_result)
  note prep = merge_prepared [OF ro co, where ds = S and entries = B, folded ds2_def]
  from B obtain D' where upd: "DataFrame_update ds2 B = Inr D'"
    by (simp add: DataFrame_update_def)
  then have R: "?once = (None, D')"
    by (simp add: once)
  from prep(4) [OF i] have i2: "i < length (rows ds2)" and lab2: "label_at ds2 i = label_at S i"
    by simp_all
  have cell2: "cell_at ds2 i c = cell_at S i c"
    using i c k by (rule prep(5))
  from DataFrame_update_labels [OF upd] have "length (df_index D') = length (df_index ds2)"
    by simp
  with i2 have len: "i < length (rows D')"
    by (simp add: df_index_def)
  show "fst ?once = None"
    by (simp add: R)
  show "i < length (rows (snd ?once))"
    using len by (simp add: R)
  show "label_at (snd ?once) i = label_at S i"
    using DataFrame_update_cell(1) [OF upd B(1) i2] lab2 by (simp add: R)
  show "cell_at (snd ?once) i c = cell_at S i c"
    using DataFrame_update_cell(2) [OF upd B(1) i2, of c] lab2 cell2 none by (simp add: R)
qed

text \<open>
  Claim C5 (merge frame), at a store whose row is labelled NaN. The store \<open>S1\<close> holds one
  row under the label NaN with title 5 and site 3; the batch \<open>B1\<close> holds one row under
  the label NaN with title 6 and has no site column, so \<open>B1\<close> aligned on that label and
  the site column holds no value. The merge returns without an exception, the row keeps
  its position and label and takes the batch's title, and its site cell, which the claim
  says is kept, is null: NaN is not equal to itself, so line 317 lists the label as
  missing although the store has it, and line 322 sets every cell of the store's row to
  null before the overlay.
\<close>

theorem add_entries_to_ds_nan_label:
  "label_at S1 0 = None \<and>
   cell_at S1 0 ''site'' = Some 3 \<and>
   aligned B1 (label_at S1 0) ''site'' = None \<and>
   fst (add_entries_to_ds (\<lambda>k. k \<noteq> None) remdups remdups S1 B1) = None \<and>
   df_index (snd (add_entries_to_ds (\<lambda>k. k \<noteq> None) remdups remdups S1 B1)) = [None] \<and>
   cell_at (snd (add_entries_to_ds (\<lambda>k. k \<noteq> None) remdups remdups S1 B1)) 0 ''title'' = Some 6 \<and>
   cell_at (snd (add_entries_to_ds (\<lambda>k. k \<noteq> None) remdups remdups S1 B1)) 0 ''site'' = None"
  by (simp add: add_entries_to_ds_def S1_def B1_def df_index_def loc_row_nan_def
      DataFrame_update_def aligned_def label_at_def cell_at_def)

section \<open>Properties of the table store's predicates\<close>

text \<open>
  Claim C2, as stated, fails: with an operator outside gt, lt, eq and neq the query returns
  Python's None and raises nothing, and remove-where raises nothing and leaves the frame
  as it was.
\<close>

theorem unknown_operator_counterexample:
  "''ge'' \<notin> {''gt'', ''lt'', ''eq'', ''neq''} \<and>
   get_rows_by_condition S0 ''title'' ''ge'' (Some 7) = Inr None \<and>
   remove_rows_by_condition S0 ''title'' ''ge'' (Some 7) = (None, S0)"
  by (simp add: get_rows_by_condition_def remove_rows_by_condition_def bool_filter_def)

text \<open>
  Claim C2, amended. For every operator outside gt, lt, eq and neq: update-where surfaces
  an error to the caller (UnboundLocalError) and leaves the frame untouched, while the
  query returns Python's None without an error and remove-where returns without an error
  and leaves the frame unchanged.
\<close>

theorem unknown_operator:
  assumes "condition \<notin> {''gt'', ''lt'', ''eq'', ''neq''}"
  shows "get_rows_by_condition fr column condition val = Inr None \<and>
         remove_rows_by_condition fr column condition val = (None, fr) \<and>
         update_rows fr column condition val cols new = (Some UnboundLocalError, fr)"
  using assms
  by (simp add: get_rows_by_condition_def remove_rows_by_condition_def update_rows_def
      bool_filter_def)

theorem unknown_operator_witness:
  "''ge'' \<notin> {''gt'', ''lt'', ''eq'', ''neq''} \<and>
   get_rows_by_condition S0 ''title'' ''ge'' (Some 7) = Inr None \<and>
   remove_rows_by_condition S0 ''title'' ''ge'' (Some 7) = (None, S0) \<and>
   update_rows S0 ''title'' ''ge'' (Some 7) [''title''] (Some 1) = (Some UnboundLocalError, S0)"
  using unknown_operator [of "''ge''" S0 "''title''" "Some 7" "[''title'']" "Some 1"]
  by simp

section \<open>Properties of the constructor\<close>

lemma find_char_ge: "find_char c s \<ge> -1"
  by (induction s) (auto simp: Let_def)

lemma find_char_takeWhile:
  "(if find_char c s > -1 then take (nat (find_char c s)) s else s) = takeWhile (\<lambda>x. x \<noteq> c) s"
proof (induction s)
  case Nil
  then show ?case by simp
next
  case (Cons x xs)
  show ?case
  proof (cases "x = c")
    case True
    then show ?thesis by simp
  next
    case False
    with Cons find_char_ge [of c xs] show ?thesis
      by (auto simp: Let_def nat_add_distrib split: if_splits)
  qed
qed

lemma FMP_init_takeWhile:
  "FMP_init base_dir fs s =
     load_data fs
       \<lparr>symbol = takeWhile (\<lambda>x. x \<noteq> CHR ''.'') s,
        news_ds = DataStorage (takeWhile (\<lambda>x. x \<noteq> CHR ''.'') s) (NEWS_DATA_DIR base_dir),
        social_sentiment_ds =
          DataStorage (takeWhile (\<lambda>x. x \<noteq> CHR ''.'') s) (SOCIAL_SENTIMENT_DATA_DIR base_dir)\<rparr>"
  unfolding FMP_init_def Let_def find_char_takeWhile ..

lemma load_data_fields:
  "symbol (load_data fs self) = symbol self"
  "file_path (news_ds (load_data fs self)) = file_path (news_ds self)"
  "file_path (social_sentiment_ds (load_data fs self)) = file_path (social_sentiment_ds self)"
  by (simp_all add: load_data_def read_data_def new_store_def add_column_def Let_def
      split: option.splits prod.splits)

text \<open>
  Claim C10 (symbol truncation). The constructor cuts the symbol at its first dot: the
  stored symbol, the paths of both store files and the URL template of the news requests
  are built from the part before the dot alone, so that constructing with the full symbol
  and with that part give the same object; a symbol without a dot is kept as it is.
\<close>

theorem FMP_init_symbol:
  fixes fs :: "('v option, 'v) files"
  defines "trunc \<equiv> takeWhile (\<lambda>x. x \<noteq> CHR ''.'')"
  shows "symbol (FMP_init base_dir fs s) = trunc s \<and>
     file_path (news_ds (FMP_init base_dir fs s)) = path_join (NEWS_DATA_DIR base_dir) (trunc s @ EXT) \<and>
     file_path (social_sentiment_ds (FMP_init base_dir fs s)) =
       path_join (SOCIAL_SENTIMENT_DATA_DIR base_dir) (trunc s @ EXT) \<and>
     news_url (FMP_init base_dir fs s) = str_replace SYMBOL_PLACEHOLDER (trunc s) NEWS_URL \<and>
     FMP_init base_dir fs s = FMP_init base_dir fs (trunc s) \<and>
     (CHR ''.'' \<notin> set s \<longrightarrow> symbol (FMP_init base_dir fs s) = s)"
proof -
  have idem: "trunc (trunc s) = trunc s"
    by (simp add: trunc_def takeWhile_idem)
  have same: "CHR ''.'' \<notin> set s \<Longrightarrow> trunc s = s"
    by (auto simp: trunc_def)
  have e: "FMP_init base_dir fs s = FMP_init base_dir fs (trunc s)"
    unfolding FMP_init_takeWhile idem [unfolded trunc_def] trunc_def ..
  have a: "symbol (FMP_init base_dir fs s) = trunc s"
    by (simp add: FMP_init_takeWhile load_data_fields trunc_def)
  have b: "file_path (news_ds (FMP_init base_dir fs s)) =
      path_join (NEWS_DATA_DIR base_dir) (trunc s @ EXT)"
    by (simp add: FMP_init_takeWhile load_data_fields DataStorage_def trunc_def)
  have c: "file_path (social_sentiment_ds (FMP_init base_dir fs s)) =
      path_join (SOCIAL_SENTIMENT_DATA_DIR base_dir) (trunc s @ EXT)"
    by (simp add: FMP_init_takeWhile load_data_fields DataStorage_def trunc_def)
  have d: "news_url (FMP_init base_dir fs s) = str_replace SYMBOL_PLACEHOLDER (trunc s) NEWS_URL"
    by (simp add: news_url_def a)
  from same a have f: "CHR ''.'' \<notin> set s \<longrightarrow> symbol (FMP_init base_dir fs s) = s"
    by simp
  show ?thesis
    by (intro conjI a b c d e f)
qed

theorem FMP_init_symbol_witness:
  "symbol (FMP_init ''/srv'' (\<lambda>p. None) ''BMW.DE'' :: (nat option, nat) fmp) = ''BMW'' \<and>
   file_path (news_ds (FMP_init ''/srv'' (\<lambda>p. None) ''BMW.DE'' :: (nat option, nat) fmp)) = ''/srv/news/BMW.csv'' \<and>
   CHR ''.'' \<notin> set ''AAPL'' \<and>
   symbol (FMP_init ''/srv'' (\<lambda>p. None) ''AAPL'' :: (nat option, nat) fmp) = ''AAPL''"
proof -
  note bmw = FMP_init_symbol [of "''/srv''" "\<lambda>p. None :: ((nat option, nat) dataframe) option" "''BMW.DE''"]
  note aapl = FMP_init_symbol [of "''/srv''" "\<lambda>p. None :: ((nat option, nat) dataframe) option" "''AAPL''"]
  from bmw [THEN conjunct1] bmw [THEN conjunct2, THEN conjunct1] aapl [THEN conjunct1]
  show ?thesis
    by (simp add: NEWS_DATA_DIR_def path_join_def startswith_def EXT_def)
qed

section \<open>Properties of the fetcher\<close>

lemma read_pages_hit_step:
  fixes st :: "'v paging"
  assumes page: "curr_page st + 1 = int n"
    and nonempty: "page_of w url n \<noteq> []"
    and field: "map_of (last (page_of w url n)) (dict_key cc) = Some (Some v)"
    and known: "Some v \<in> set (series cc)"
  shows "\<exists>st'. read_pages (Suc passes) w url (Some cc) st = (Stopped CROSS_CHECK_HIT, st') \<and>
     response_list st' = response_list st @ page_of w url n \<and> curr_page st' = int n"
  using assms
  by (simp add: Let_def cross_check_hit_def page_of_def)

lemma read_pages_miss_step:
  fixes st :: "'v paging"
  assumes page: "curr_page st + 1 = int n"
    and nonempty: "page_of w url n \<noteq> []"
    and miss: "cross_check_hit cross_check (response_list st @ page_of w url n) = Inr False"
  shows "\<exists>st'. read_pages (Suc passes) w url cross_check st = read_pages passes w url cross_check st' \<and>
     response_list st' = response_list st @ page_of w url n \<and> curr_page st' = int n \<and>
     request_times st' = request_times st @ [clock st]"
proof -
  let ?pass = "length (request_times st)"
  let ?delay = "CALL_DELAY - (clock st + busy w ?pass - clock st)"
  let ?st3 = "st\<lparr>curr_page := int n,
                  clock := clock st + busy w ?pass + (if ?delay > 0 then ?delay else 0) + idle w ?pass,
                  request_times := request_times st @ [clock st],
                  response_list := response_list st @ page_of w url n\<rparr>"
  from assms have "read_pages (Suc passes) w url cross_check st = read_pages passes w url cross_check ?st3"
    by (auto simp: Let_def page_of_def
        intro!: arg_cong [where f = "read_pages passes w url cross_check"] paging.equality)
  then show ?thesis
    by (intro exI [of _ ?st3]) simp
qed

lemma read_pages_hit_run:
  fixes st :: "'v paging"
  assumes "curr_page st + 1 = int n"
    and "\<forall>q<m. page_of w url (n + q) \<noteq> [] \<and>
           cross_check_hit (Some cc) (response_list st @ concat (map (page_of w url) [n..<Suc (n + q)]))
             = Inr False"
    and "page_of w url (n + m) \<noteq> []"
    and "map_of (last (page_of w url (n + m))) (dict_key cc) = Some (Some v)"
    and "Some v \<in> set (series cc)"
    and "m < passes"
  shows "\<exists>st'. read_pages passes w url (Some cc) st = (Stopped CROSS_CHECK_HIT, st') \<and>
     response_list st' = response_list st @ concat (map (page_of w url) [n..<Suc (n + m)]) \<and>
     curr_page st' = int (n + m)"
  using assms
proof (induction m arbitrary: st n passes)
  case 0
  from \<open>0 < passes\<close> obtain k where k: "passes = Suc k"
    by (cases passes) auto
  from read_pages_hit_step [of st n w url cc v k] 0 show ?case
    unfolding k by simp
next
  case (Suc m)
  from \<open>Suc m < passes\<close> obtain k where k: "passes = Suc k" and mk: "m < k"
    by (cases passes) auto
  from Suc.prems(2) have first: "page_of w url n \<noteq> []"
    "cross_check_hit (Some cc) (response_list st @ page_of w url n) = Inr False"
    by (auto dest: spec [of _ 0])
  from read_pages_miss_step [OF Suc.prems(1) first, of k]
  obtain st1 where step: "read_pages (Suc k) w url (Some cc) st = read_pages k w url (Some cc) st1"
    and rl: "response_list st1 = response_list st @ page_of w url n"
    and cp: "curr_page st1 = int n"
    by blast
  have cat: "\<And>q. response_list st @ concat (map (page_of w url) [n..<Suc (n + Suc q)]) =
      response_list st1 @ concat (map (page_of w url) [Suc n..<Suc (Suc n + q)])"
  proof -
    fix q
    have "[n..<Suc (n + Suc q)] = n # [Suc n..<Suc (Suc n + q)]"
      by (simp add: upt_conv_Cons del: upt_Suc)
    then show "response_list st @ concat (map (page_of w url) [n..<Suc (n + Suc q)]) =
      response_list st1 @ concat (map (page_of w url) [Suc n..<Suc (Suc n + q)])"
      by (simp add: rl del: upt_Suc)
  qed
  have rest: "\<forall>q<m. page_of w url (Suc n + q) \<noteq> [] \<and>
      cross_check_hit (Some cc) (response_list st1 @ concat (map (page_of w url) [Suc n..<Suc (Suc n + q)]))
        = Inr False"
  proof (intro allI impI)
    fix q assume "q < m"
    then have "Suc q < Suc m" by simp
    with Suc.prems(2) have "page_of w url (n + Suc q) \<noteq> [] \<and>
        cross_check_hit (Some cc)
          (response_list st @ concat (map (page_of w url) [n..<Suc (n + Suc q)])) = Inr False"
      by blast
    then show "page_of w url (Suc n + q) \<noteq> [] \<and>
      cross_check_hit (Some cc) (response_list st1 @ concat (map (page_of w url) [Suc n..<Suc (Suc n + q)]))
        = Inr False"
      unfolding cat by simp
  qed
  from cp have cp1: "curr_page st1 + 1 = int (Suc n)"
    by simp
  from Suc.prems(3,4) have last_page: "page_of w url (Suc n + m) \<noteq> []"
    "map_of (last (page_of w url (Suc n + m))) (dict_key cc) = Some (Some v)"
    by simp_all
  from Suc.IH [OF cp1 rest last_page Suc.prems(5) mk]
  obtain st' where "read_pages k w url (Some cc) st1 = (Stopped CROSS_CHECK_HIT, st')"
    and "response_list st' = response_list st1 @ concat (map (page_of w url) [Suc n..<Suc (Suc n + m)])"
    and "curr_page st' = int (Suc n + m)"
    by auto
  with step cat [of m] show ?case
    unfolding k by (simp del: upt_Suc)
qed

text \<open>
  Claim C3 (cross-check stop). In a run with a cross-check state, let the paging reach
  page \<open>p\<close>: every earlier page had records and did not match. If page \<open>p\<close> has records
  and the designated field of its last record is among the reference values, the loop
  stops on that pass with CROSS_CHECK_HIT, given passes enough to get there, and the
  batch is pages \<open>0\<close> to \<open>p\<close> in full: what was accumulated before, then every record of
  page \<open>p\<close>, the matching record last.
\<close>

theorem cross_check_hit_keeps_page:
  assumes reached: "\<forall>q<p. page_of w url q \<noteq> [] \<and>
        cross_check_hit (Some cc) (batch_upto w url q) = Inr False"
    and nonempty: "page_of w url p \<noteq> []"
    and field: "map_of (last (page_of w url p)) (dict_key cc) = Some (Some v)"
    and known: "Some v \<in> set (series cc)"
    and bound: "p < passes"
  shows "\<exists>st. read_pages passes w url (Some cc) (paging_start w) = (Stopped CROSS_CHECK_HIT, st) \<and>
     response_list st = batch_upto w url p \<and>
     response_list st = (if p = 0 then [] else batch_upto w url (p - 1)) @ page_of w url p \<and>
     last (response_list st) = last (page_of w url p) \<and>
     curr_page st = int p"
proof -
  have start: "curr_page (paging_start w) + 1 = int 0" "response_list (paging_start w) = []"
    by (simp_all add: paging_start_def)
  from reached have reached': "\<forall>q<p. page_of w url (0 + q) \<noteq> [] \<and>
      cross_check_hit (Some cc)
        (response_list (paging_start w) @ concat (map (page_of w url) [0..<Suc (0 + q)])) = Inr False"
    by (simp add: start batch_upto_def)
  from read_pages_hit_run [OF start(1) reached', of v passes] nonempty field known bound
  obtain st where run: "read_pages passes w url (Some cc) (paging_start w) = (Stopped CROSS_CHECK_HIT, st)"
    and rl: "response_list st = batch_upto w url p" and cp: "curr_page st = int p"
    by (auto simp: start batch_upto_def)
  have split: "batch_upto w url p = (if p = 0 then [] else batch_upto w url (p - 1)) @ page_of w url p"
    by (cases p) (simp_all add: batch_upto_def)
  from split nonempty have "last (batch_upto w url p) = last (page_of w url p)"
    by simp
  with run rl cp split show ?thesis
    by simp
qed

theorem cross_check_hit_keeps_page_witness:
  "page_of W0 ''p$$$'' 0 \<noteq> [] \<and>
   cross_check_hit (Some \<lparr>series = [Some 7], dict_key = ''title''\<rparr>) (batch_upto W0 ''p$$$'' 0) = Inr False \<and>
   page_of W0 ''p$$$'' 1 \<noteq> [] \<and>
   map_of (last (page_of W0 ''p$$$'' 1)) ''title'' = Some (Some 7) \<and>
   (\<exists>st. read_pages 5 W0 ''p$$$'' (Some \<lparr>series = [Some 7], dict_key = ''title''\<rparr>) (paging_start W0)
            = (Stopped CROSS_CHECK_HIT, st) \<and>
         response_list st = batch_upto W0 ''p$$$'' 1 \<and>
         last (response_list st) = [(''title'', Some 7), (''publishedDate'', Some 17)])"
proof -
  have p0: "page_of W0 ''p$$$'' 0 = [[(''title'', Some 5), (''publishedDate'', Some 20)],
                                [(''title'', Some 6), (''publishedDate'', Some 19)]]"
    by (simp add: page_of_def W0_def PAGE_PLACEHOLDER_def str_replace.simps str_int_def str_nat.simps)
  have p1: "page_of W0 ''p$$$'' 1 = [[(''title'', Some 8), (''publishedDate'', Some 18)],
                                [(''title'', Some 7), (''publishedDate'', Some 17)]]"
    by (simp add: page_of_def W0_def PAGE_PLACEHOLDER_def str_replace.simps str_int_def str_nat.simps)
  have b0: "batch_upto W0 ''p$$$'' 0 = page_of W0 ''p$$$'' 0"
    by (simp add: batch_upto_def)
  have miss: "cross_check_hit (Some \<lparr>series = [Some 7], dict_key = ''title''\<rparr>) (batch_upto W0 ''p$$$'' 0) = Inr False"
    by (simp add: b0 p0 cross_check_hit_def)
  have reached: "\<forall>q<1. page_of W0 ''p$$$'' q \<noteq> [] \<and>
      cross_check_hit (Some \<lparr>series = [Some 7], dict_key = ''title''\<rparr>) (batch_upto W0 ''p$$$'' q) = Inr False"
    using miss p0 by simp
  have nonempty: "page_of W0 ''p$$$'' 1 \<noteq> []"
    by (simp only: p1) simp
  have field: "map_of (last (page_of W0 ''p$$$'' 1))
      (dict_key \<lparr>series = [Some (7::nat)], dict_key = ''title''\<rparr>) = Some (Some 7)"
    by (simp only: p1) simp
  have known: "Some 7 \<in> set (series \<lparr>series = [Some (7::nat)], dict_key = ''title''\<rparr>)"
    by simp
  have bound: "(1::nat) < 5"
    by simp
  from cross_check_hit_keeps_page [OF reached nonempty field known bound]
  obtain st where
    "read_pages 5 W0 ''p$$$'' (Some \<lparr>series = [Some 7], dict_key = ''title''\<rparr>) (paging_start W0)
       = (Stopped CROSS_CHECK_HIT, st)"
    and "response_list st = batch_upto W0 ''p$$$'' 1"
    and "last (response_list st) = last (page_of W0 ''p$$$'' 1)"
    by blast
  moreover have "last (page_of W0 ''p$$$'' 1) = [(''title'', Some 7), (''publishedDate'', Some 17)]"
    by (simp only: p1) simp
  moreover have "page_of W0 ''p$$$'' 0 \<noteq> []"
    by (simp only: p0) simp
  moreover from field have "map_of (last (page_of W0 ''p$$$'' 1)) ''title'' = Some (Some 7)"
    by simp
  ultimately show ?thesis
    using miss nonempty by auto
qed

section \<open>Properties of the synchronisation run\<close>

lemma news_url_literal:
  "news_url self = ''https://financialmodelingprep.com/api/v3/stock_news?tickers='' @ symbol self @
     ''&apikey=@@@&page=$$$''"
  by (simp add: news_url_def NEWS_URL_def NEWS_BASE_URL_def SYMBOL_PLACEHOLDER_def
      API_KEY_PLACEHOLDER_def PAGE_PLACEHOLDER_def str_replace.simps)

lemma news_url_is_news:
  "startswith (fetch_url w self) NEWS_BASE_URL"
  by (simp add: fetch_url_def news_url_literal NEWS_BASE_URL_def API_KEY_PLACEHOLDER_def
      startswith_def str_replace.simps)

lemma read_pages_empty_first:
  assumes "page_of w url (nat (curr_page st + 1)) = []" and "0 \<le> curr_page st + 1"
  shows "\<exists>st'. read_pages (Suc passes) w url cross_check st = (Stopped EMPTY_PAGE, st') \<and>
     response_list st' = response_list st"
  using assms
  by (simp add: Let_def page_of_def)

lemma read_entries_no_data:
  assumes "page_of w (str_replace API_KEY_PLACEHOLDER (fmp_api_key w) url) 0 = []"
    and "0 < passes"
  shows "read_entries passes w url cross_check = Some (Inl NoData)"
proof -
  from \<open>0 < passes\<close> obtain k where k: "passes = Suc k"
    by (cases passes) auto
  let ?url = "str_replace API_KEY_PLACEHOLDER (fmp_api_key w) url"
  from read_pages_empty_first [of w ?url "paging_start w" k cross_check] assms(1)
  obtain st' where "read_pages (Suc k) w ?url cross_check (paging_start w) = (Stopped EMPTY_PAGE, st')"
    and "response_list st' = []"
    by (auto simp: paging_start_def)
  then show ?thesis
    unfolding k read_entries_def Let_def by simp
qed

text \<open>
  Claim C4 (no data). A run starts once \<^verbatim>\<open>read_news\<close> has configured its cross-check
  state. If the first page requested has no record (the loop then stops, so no page ever
  yields one), \<^verbatim>\<open>_read_entries\<close> raises NoData and \<^verbatim>\<open>read_news\<close> passes it to the
  caller with the object, its store table included, and every file exactly as before.
\<close>

theorem no_data_leaves_store:
  assumes configured: "news_cross_check (df (news_ds self)) = Inr cross_check"
    and empty: "page_of w (fetch_url w self) 0 = []"
    and bound: "0 < passes"
  shows "read_entries passes w (news_url self) cross_check = Some (Inl NoData) \<and>
     read_news passes w self_equal row_order col_order srt parse render (self, fs) =
       Some (Some NoData, self, fs)"
proof -
  from empty bound have "read_entries passes w (news_url self) cross_check = Some (Inl NoData)"
    unfolding fetch_url_def by (rule read_entries_no_data)
  with configured show ?thesis
    by (simp add: read_news_def)
qed

lemma FMP0_fields:
  "symbol FMP0 = ''BMW''" "df (news_ds FMP0) = \<lparr>columns = [''sentiment'', ''sentiment_probability''], rows = []\<rparr>"
  by (simp_all add: FMP0_def FMP_init_def load_data_def read_data_def new_store_def add_column_def
      DataStorage_def loc_col_nan_def set_index_def Let_def)

lemma FMP0_cross_check: "news_cross_check (df (news_ds FMP0)) = Inr None"
  by (simp add: FMP0_fields news_cross_check_def)

theorem no_data_leaves_store_witness:
  "news_cross_check (df (news_ds FMP0)) = Inr None \<and>
   page_of W1 (fetch_url W1 FMP0) 0 = [] \<and>
   read_news 1 W1 (\<lambda>k. k \<noteq> None) remdups remdups newest_first (\<lambda>k. k) Some (FMP0, \<lambda>p. None)
     = Some (Some NoData, FMP0, \<lambda>p. None)"
proof -
  have empty: "page_of W1 (fetch_url W1 FMP0) 0 = []"
    by (simp add: page_of_def W1_def)
  have bound: "(0::nat) < 1"
    by simp
  from no_data_leaves_store [OF FMP0_cross_check empty bound,
      where self_equal = "\<lambda>k. k \<noteq> None" and row_order = remdups and col_order = remdups
        and srt = newest_first and parse = "\<lambda>k. k" and render = Some and fs = "\<lambda>p. None"]
    FMP0_cross_check empty
  show ?thesis
    by simp
qed

lemma find_fixed:
  "c' \<in> set cs \<Longrightarrow> \<forall>c\<in>set cs. f c = c \<Longrightarrow> find (\<lambda>c. f c = c') cs = Some c'"
  by (induction cs) auto

lemma camel_case_date: "camel_case_to_snake_case ''date'' = ''date''"
  by (simp add: camel_case_to_snake_case_def lower_char_def is_upper_def)

lemma hd_rows_json_normalize:
  "records \<noteq> [] \<Longrightarrow> snd (hd (rows (json_normalize records))) = record_value (hd records)"
  by (cases records) (simp_all add: json_normalize_def enumerate_simps record_value_def fun_eq_iff)

lemma snake_case_keeps_date:
  assumes "''date'' \<notin> set (map (\<lambda>c. camel_case_to_snake_case (g c)) cs)"
  shows "''date'' \<notin> set (map g cs)"
proof
  assume "''date'' \<in> set (map g cs)"
  then obtain c where "c \<in> set cs" and "g c = ''date''"
    by auto
  then have "camel_case_to_snake_case (g c) = ''date''"
    by (simp add: camel_case_date)
  with \<open>c \<in> set cs\<close> have "''date'' \<in> set (map (\<lambda>c. camel_case_to_snake_case (g c)) cs)"
    by force
  with assms show False
    by contradiction
qed

lemma rename_columns_fixed:
  assumes fixed: "\<forall>c\<in>set (columns N). f c = c" and rows: "rows N \<noteq> []"
  shows "columns (rename_columns f N) = columns N"
    and "map (snd (hd (rows (rename_columns f N)))) (columns N) = map (snd (hd (rows N))) (columns N)"
proof -
  from fixed have "map f (columns N) = columns N"
    by (intro map_idI) simp
  then show "columns (rename_columns f N) = columns N"
    by (simp add: rename_columns_def)
  from rows have "snd (hd (rows (rename_columns f N))) =
      (\<lambda>c'. case find (\<lambda>c. f c = c') (columns N) of None \<Rightarrow> None | Some c \<Rightarrow> snd (hd (rows N)) c)"
    by (simp add: rename_columns_def hd_map split_def)
  moreover have "\<And>c'. c' \<in> set (columns N) \<Longrightarrow> find (\<lambda>c. f c = c') (columns N) = Some c'"
    using fixed by (simp add: find_fixed)
  ultimately show "map (snd (hd (rows (rename_columns f N)))) (columns N) =
      map (snd (hd (rows N))) (columns N)"
    by simp
qed

lemma read_entries_missing_key:
  assumes stopped: "read_pages passes w (str_replace API_KEY_PLACEHOLDER (fmp_api_key w) url) cross_check
        (paging_start w) = (Stopped reason, st)"
    and batch: "response_list st \<noteq> []"
    and news: "startswith (str_replace API_KEY_PLACEHOLDER (fmp_api_key w) url) NEWS_BASE_URL"
    and nokey: "''date'' \<notin> set (map (\<lambda>c. if c = ''publishedDate'' then ''date'' else c)
                  (ordered_union (concat (map (map fst) (response_list st)))))"
  shows "read_entries passes w url cross_check =
     Some (Inl (MissingKey (map (record_value (hd (response_list st)))
                   (ordered_union (concat (map (map fst) (response_list st)))))))"
proof -
  let ?f = "\<lambda>c. if c = ''publishedDate'' then ''date'' else c"
  let ?N = "json_normalize (response_list st)"
  let ?R = "rename_columns ?f ?N"
  have colsN: "columns ?N = ordered_union (concat (map (map fst) (response_list st)))"
    by (simp add: json_normalize_def)
  from nokey have fixed: "\<forall>c\<in>set (columns ?N). ?f c = c"
    unfolding colsN by auto
  from batch have rowsN: "rows ?N \<noteq> []"
    by (simp add: json_normalize_def enumerate_eq_zip)
  note ren = rename_columns_fixed [OF fixed rowsN]
  from nokey have nodate: "''date'' \<notin> set (columns ?R)"
    by (simp add: rename_columns_def colsN)
  have "map (snd (hd (rows ?R))) (columns ?R) = map (snd (hd (rows ?N))) (columns ?N)"
    by (simp only: ren)
  also have "\<dots> = map (record_value (hd (response_list st)))
      (ordered_union (concat (map (map fst) (response_list st))))"
    by (simp only: hd_rows_json_normalize [OF batch] colsN)
  finally have payload: "map (snd (hd (rows ?R))) (columns ?R) =
      map (record_value (hd (response_list st))) (ordered_union (concat (map (map fst) (response_list st))))" .
  have "read_entries passes w url cross_check =
      Some (Inl (MissingKey (map (snd (hd (rows ?R))) (columns ?R))))"
    unfolding read_entries_def Let_def stopped using batch news nodate
    by (simp only: prod.case outcome.case if_True if_False length_0_conv
        not_False_eq_True not_True_eq_False)
  then show ?thesis
    by (simp only: payload)
qed

text \<open>
  Claim C9 (missing key). Let a run of \<^verbatim>\<open>read_news\<close> end its paging with a batch that is
  not empty. If the fields of the batch, after the rename of the news endpoint and the
  conversion to snake case, do not include \<^verbatim>\<open>date\<close>, the run fails with the MissingKey
  error, whose payload is the first raw record (its value for every field of the batch,
  null where it has none), and the object, its store table included, and every file are
  exactly as before.
\<close>

theorem missing_key_leaves_store:
  assumes configured: "news_cross_check (df (news_ds self)) = Inr cross_check"
    and stopped: "read_pages passes w (fetch_url w self) cross_check (paging_start w) = (Stopped reason, st)"
    and batch: "response_list st \<noteq> []"
    and nokey: "''date'' \<notin> set (map (\<lambda>c. camel_case_to_snake_case (if c = ''publishedDate'' then ''date'' else c))
                  (ordered_union (concat (map (map fst) (response_list st)))))"
  shows "read_news passes w self_equal row_order col_order srt parse render (self, fs) =
     Some (Some (MissingKey (map (record_value (hd (response_list st)))
                   (ordered_union (concat (map (map fst) (response_list st)))))), self, fs)"
proof -
  have "read_entries passes w (news_url self) cross_check =
     Some (Inl (MissingKey (map (record_value (hd (response_list st)))
                   (ordered_union (concat (map (map fst) (response_list st)))))))"
    using stopped [unfolded fetch_url_def] batch news_url_is_news [of w self, unfolded fetch_url_def]
      snake_case_keeps_date [OF nokey]
    by (rule read_entries_missing_key)
  with configured show ?thesis
    by (simp add: read_news_def)
qed

lemma fetch_url_W2: "fetch_url W2 FMP0 =
   ''https://financialmodelingprep.com/api/v3/stock_news?tickers=BMW&apikey=k&page=$$$''"
  by (simp add: fetch_url_def news_url_literal FMP0_fields W2_def API_KEY_PLACEHOLDER_def str_replace.simps)

lemma W2_pages:
  "respond W2 (str_replace PAGE_PLACEHOLDER (str_int 0) (fetch_url W2 FMP0)) =
     [[(''title'', Some 5), (''site'', Some 3)], [(''title'', Some 6), (''site'', None)]]"
  "respond W2 (str_replace PAGE_PLACEHOLDER (str_int 1) (fetch_url W2 FMP0)) = []"
  unfolding fetch_url_W2
  by (simp_all add: W2_def PAGE_PLACEHOLDER_def str_replace.simps str_int_def str_nat.simps)

lemma W2_clock: "start_time W2 = 0" "busy W2 n = 1 / 20" "idle W2 n = 0"
  by (simp_all add: W2_def)

lemma W2_run:
  "read_pages 2 W2 (fetch_url W2 FMP0) None (paging_start W2) =
     (Stopped EMPTY_PAGE,
      \<lparr>curr_page = 1,
       response_list = [[(''title'', Some 5), (''site'', Some 3)], [(''title'', Some 6), (''site'', None)]],
       clock = 1 / 4, request_times = [0, 1 / 5]\<rparr>)"
  by (simp add: numeral_2_eq_2 Let_def paging_start_def W2_pages W2_clock cross_check_hit_def
      CALL_DELAY_def)

theorem missing_key_leaves_store_witness:
  "news_cross_check (df (news_ds FMP0)) = Inr None \<and>
   read_pages 2 W2 (fetch_url W2 FMP0) None (paging_start W2) =
     (Stopped EMPTY_PAGE,
      \<lparr>curr_page = 1,
       response_list = [[(''title'', Some 5), (''site'', Some 3)], [(''title'', Some 6), (''site'', None)]],
       clock = 1 / 4, request_times = [0, 1 / 5]\<rparr>) \<and>
   read_news 2 W2 (\<lambda>k. k \<noteq> None) remdups remdups newest_first (\<lambda>k. k) Some (FMP0, \<lambda>p. None) =
     Some (Some (MissingKey [Some 5, Some 3]), FMP0, \<lambda>p. None)"
proof -
  let ?st = "\<lparr>curr_page = 1,
       response_list = [[(''title'', Some 5), (''site'', Some (3::nat))], [(''title'', Some 6), (''site'', None)]],
       clock = 1 / 4, request_times = [0, 1 / 5]\<rparr>"
  have batch: "response_list ?st \<noteq> []"
    by simp
  have fields: "ordered_union (concat (map (map fst) (response_list ?st))) = [''title'', ''site'']"
    by (simp add: ordered_union_def)
  have nokey: "''date'' \<notin> set (map (\<lambda>c. camel_case_to_snake_case (if c = ''publishedDate'' then ''date'' else c))
                  (ordered_union (concat (map (map fst) (response_list ?st)))))"
    unfolding fields by (simp add: camel_case_to_snake_case_def lower_char_def is_upper_def)
  from missing_key_leaves_store [OF FMP0_cross_check W2_run batch nokey,
      where self_equal = "\<lambda>k. k \<noteq> None" and row_order = remdups and col_order = remdups
        and srt = newest_first and parse = "\<lambda>k. k" and render = Some and fs = "\<lambda>p. None"]
  have "read_news 2 W2 (\<lambda>k. k \<noteq> None) remdups remdups newest_first (\<lambda>k. k) Some (FMP0, \<lambda>p. None) =
     Some (Some (MissingKey [Some 5, Some 3]), FMP0, \<lambda>p. None)"
    unfolding fields by (simp add: record_value_def)
  with FMP0_cross_check W2_run show ?thesis
    by (intro conjI)
qed

section \<open>Properties of the rate limiter\<close>

lemma paced_snoc:
  assumes "paced w ts"
    and "ts \<noteq> [] \<longrightarrow> t = last ts + busy w (length ts - 1)
           + max 0 (CALL_DELAY - busy w (length ts - 1)) + idle w (length ts - 1)"
  shows "paced w (ts @ [t])"
  unfolding paced_def
proof (intro allI impI)
  fix j assume j: "Suc j < length (ts @ [t])"
  show "(ts @ [t]) ! Suc j = (ts @ [t]) ! j + busy w j + max 0 (CALL_DELAY - busy w j) + idle w j"
  proof (cases "Suc j < length ts")
    case True
    with assms(1) show ?thesis
      by (simp add: paced_def nth_append)
  next
    case False
    with j have len: "length ts = Suc j"
      by simp
    then have "ts \<noteq> []"
      by auto
    with len have "last ts = ts ! j"
      by (simp add: last_conv_nth)
    note \<open>ts \<noteq> []\<close> this
    with assms(2) len show ?thesis
      by (simp add: nth_append)
  qed
qed

lemma read_pages_paced:
  assumes "read_pages passes w url cross_check st = (out, st')"
    and "paced w (request_times st)"
    and "request_times st \<noteq> [] \<longrightarrow>
           clock st = last (request_times st) + busy w (length (request_times st) - 1)
             + max 0 (CALL_DELAY - busy w (length (request_times st) - 1))
             + idle w (length (request_times st) - 1)"
  shows "paced w (request_times st')"
  using assms
proof (induction passes arbitrary: st)
  case 0
  then show ?case by simp
next
  case (Suc passes)
  let ?n = "length (request_times st)"
  let ?ts = "request_times st @ [clock st]"
  let ?page = "respond w (str_replace PAGE_PLACEHOLDER (str_int (curr_page st + 1)) url)"
  let ?st3 = "st\<lparr>curr_page := curr_page st + 1,
                  clock := clock st + busy w ?n + max 0 (CALL_DELAY - busy w ?n) + idle w ?n,
                  request_times := ?ts,
                  response_list := response_list st @ ?page\<rparr>"
  from Suc.prems(2,3) have ts: "paced w ?ts"
    by (rule paced_snoc)
  show ?case
  proof (cases "?page = [] \<or> cross_check_hit cross_check (response_list st @ ?page) \<noteq> Inr False")
    case True
    with Suc.prems(1) have "request_times st' = ?ts"
      by (auto simp: Let_def split: sum.splits bool.splits if_splits)
    with ts show ?thesis by simp
  next
    case False
    then have "read_pages (Suc passes) w url cross_check st = read_pages passes w url cross_check ?st3"
      by (auto simp: Let_def max_def
          intro!: arg_cong [where f = "read_pages passes w url cross_check"] paging.equality)
    with Suc.prems(1) have run: "read_pages passes w url cross_check ?st3 = (out, st')"
      by simp
    from ts have "paced w (request_times ?st3)"
      by simp
    moreover have "request_times ?st3 \<noteq> [] \<longrightarrow>
        clock ?st3 = last (request_times ?st3) + busy w (length (request_times ?st3) - 1)
          + max 0 (CALL_DELAY - busy w (length (request_times ?st3) - 1))
          + idle w (length (request_times ?st3) - 1)"
      by simp
    ultimately show ?thesis
      by (rule Suc.IH [OF run])
  qed
qed

lemma paced_gap:
  assumes "paced w ts" and "\<forall>n. 0 \<le> idle w n" and "j < length ts" and "i \<le> j"
  shows "ts ! i + real (j - i) * CALL_DELAY \<le> ts ! j"
  using assms(3,4)
proof (induction j)
  case 0
  then show ?case by simp
next
  case (Suc j)
  show ?case
  proof (cases "i = Suc j")
    case True
    then show ?thesis by simp
  next
    case False
    with Suc.prems have "i \<le> j" and "j < length ts"
      by simp_all
    then have IH: "ts ! i + real (j - i) * CALL_DELAY \<le> ts ! j"
      by (intro Suc.IH)
    from assms(1) Suc.prems(1)
    have "ts ! Suc j = ts ! j + busy w j + max 0 (CALL_DELAY - busy w j) + idle w j"
      by (simp add: paced_def)
    moreover from assms(2) have "0 \<le> idle w j"
      by simp
    ultimately have "ts ! j + CALL_DELAY \<le> ts ! Suc j"
      by (simp add: max_def split: if_splits)
    moreover from \<open>i \<le> j\<close> have "real (Suc j - i) = real (j - i) + 1"
      by (simp add: Suc_diff_le)
    ultimately show ?thesis
      using IH by (simp add: algebra_simps)
  qed
qed

text \<open>
  Claim C8 (rate limiter). Whatever the run does, its requests are paced: the request of
  the next page starts after the one before it by the measured duration of that pass plus
  the sleep \<open>max 0 (CALL_DELAY - duration)\<close> (plus whatever the machine idles). Hence, with
  no negative idle time, request \<open>j\<close> starts at least \<open>(j - i) * CALL_DELAY\<close> after request
  \<open>i\<close>, and the last of \<open>M\<close> requests at least \<open>(M - 1) * CALL_DELAY\<close> after the first,
  however long the requests take.
\<close>

theorem rate_limit:
  assumes run: "read_pages passes w url cross_check (paging_start w) = (out, st)"
    and idle: "\<forall>n. 0 \<le> idle w n"
  shows "paced w (request_times st) \<and>
     (\<forall>i j. i \<le> j \<and> j < length (request_times st) \<longrightarrow>
        request_times st ! i + real (j - i) * CALL_DELAY \<le> request_times st ! j) \<and>
     (request_times st \<noteq> [] \<longrightarrow>
        hd (request_times st) + real (length (request_times st) - 1) * CALL_DELAY
          \<le> last (request_times st))"
proof -
  have p: "paced w (request_times st)"
    by (rule read_pages_paced [OF run]) (simp_all add: paging_start_def paced_def)
  have gap: "\<forall>i j. i \<le> j \<and> j < length (request_times st) \<longrightarrow>
        request_times st ! i + real (j - i) * CALL_DELAY \<le> request_times st ! j"
    using paced_gap [OF p idle] by blast
  have "request_times st \<noteq> [] \<longrightarrow>
        hd (request_times st) + real (length (request_times st) - 1) * CALL_DELAY
          \<le> last (request_times st)"
  proof
    assume ne: "request_times st \<noteq> []"
    then have "0 \<le> length (request_times st) - 1 \<and> length (request_times st) - 1 < length (request_times st)"
      by simp
    with gap have "request_times st ! 0 + real (length (request_times st) - 1 - 0) * CALL_DELAY
        \<le> request_times st ! (length (request_times st) - 1)"
      by blast
    with ne show "hd (request_times st) + real (length (request_times st) - 1) * CALL_DELAY
          \<le> last (request_times st)"
      by (simp add: hd_conv_nth last_conv_nth)
  qed
  with p gap show ?thesis
    by blast
qed

lemma W0_pages:
  "respond W0 (str_replace PAGE_PLACEHOLDER (str_int 0) ''p$$$'') =
     [[(''title'', Some 5), (''publishedDate'', Some 20)], [(''title'', Some 6), (''publishedDate'', Some 19)]]"
  "respond W0 (str_replace PAGE_PLACEHOLDER (str_int 1) ''p$$$'') =
     [[(''title'', Some 8), (''publishedDate'', Some 18)], [(''title'', Some 7), (''publishedDate'', Some 17)]]"
  "respond W0 (str_replace PAGE_PLACEHOLDER (str_int 2) ''p$$$'') = []"
  by (simp_all add: W0_def PAGE_PLACEHOLDER_def str_replace.simps str_int_def str_nat.simps)

lemma W0_clock: "start_time W0 = 100" "busy W0 n = 1 / 20" "idle W0 n = 0"
  by (simp_all add: W0_def)

lemma W0_run:
  "read_pages 5 W0 ''p$$$'' None (paging_start W0) =
     (Stopped EMPTY_PAGE,
      \<lparr>curr_page = 2,
       response_list =
         [[(''title'', Some 5), (''publishedDate'', Some 20)], [(''title'', Some 6), (''publishedDate'', Some 19)],
          [(''title'', Some 8), (''publishedDate'', Some 18)], [(''title'', Some 7), (''publishedDate'', Some 17)]],
       clock = 2009 / 20, request_times = [100, 501 / 5, 502 / 5]\<rparr>)"
  by (simp add: eval_nat_numeral Let_def paging_start_def W0_pages W0_clock cross_check_hit_def
      CALL_DELAY_def)

theorem rate_limit_witness:
  "(\<forall>n. 0 \<le> idle W0 n) \<and>
   request_times (snd (read_pages 5 W0 ''p$$$'' None (paging_start W0))) = [100, 501 / 5, 502 / 5] \<and>
   (100::real) + real (3 - 1) * CALL_DELAY \<le> 502 / 5"
proof -
  have idle: "\<forall>n. 0 \<le> idle W0 n"
    by (simp add: W0_clock)
  from rate_limit [OF W0_run idle, THEN conjunct2, THEN conjunct2]
  have "(100::real) + real (3 - 1) * CALL_DELAY \<le> 502 / 5"
    by simp
  with idle W0_run show ?thesis
    by simp
qed

section \<open>Properties of the date sorter\<close>

lemma those_map_Some:
  "\<forall>x\<in>set xs. f x = Some (g x) \<Longrightarrow> those (map f xs) = Some (map g xs)"
  by (induction xs) auto

lemma sort_index_desc_sorted:
  "sorts_desc srt \<Longrightarrow> sorted_wrt (\<lambda>a b. a \<ge> b) (map fst (sort_index_desc srt xs))"
  by (simp add: sort_index_desc_def sorts_desc_def)

lemma sort_index_desc_set:
  "sorts_desc srt \<Longrightarrow> set (sort_index_desc srt xs) = set xs"
  by (auto simp: sort_index_desc_def sorts_desc_def dest: mset_eq_setD)

lemma sort_index_desc_idem:
  "sorted_wrt (\<lambda>a b. a \<ge> b) (map fst xs) \<Longrightarrow> sort_index_desc srt xs = xs"
  by (simp add: sort_index_desc_def)

lemma sort_ds_dates_parsed:
  assumes "those (map parse (df_index frame)) = Some dates" and "distinct (columns frame)"
  shows "sort_ds_dates srt parse render frame =
     (None, frame\<lparr>columns := sort (columns frame),
                  rows := map (\<lambda>(d, r). (render d, r))
                            (sort_index_desc srt (zip dates (map snd (rows frame))))\<rparr>)"
  using assms by (simp add: sort_ds_dates_def Let_def)

text \<open>
  Claim C6 (date sort). For a table with distinct column labels whose row labels all
  parse under the date format, and print back to labels that parse to the same dates, the
  sort succeeds; afterwards the labels parse to a non-increasing sequence of dates and the
  column labels are in non-decreasing order; and sorting the sorted table again gives
  exactly the sorted table.
\<close>

theorem sort_ds_dates_sorted:
  fixes frame :: "('k, 'v) dataframe" and parse :: "'k \<Rightarrow> 'd::linorder option"
  assumes srt: "sorts_desc srt"
    and keys: "\<forall>k\<in>set (df_index frame). \<exists>d. parse k = Some d \<and> parse (render d) = Some d"
    and cols: "distinct (columns frame)"
  shows "\<exists>sorted_frame dates.
     sort_ds_dates srt parse render frame = (None, sorted_frame) \<and>
     those (map parse (df_index sorted_frame)) = Some dates \<and>
     sorted_wrt (\<lambda>a b. a \<ge> b) dates \<and>
     sorted (columns sorted_frame) \<and>
     sort_ds_dates srt parse render sorted_frame = (None, sorted_frame)"
proof -
  let ?ds = "map (\<lambda>k. the (parse k)) (df_index frame)"
  let ?S = "sort_index_desc srt (zip ?ds (map snd (rows frame)))"
  let ?R = "frame\<lparr>columns := sort (columns frame),
                   rows := map (\<lambda>(d, r). (render d, r)) ?S\<rparr>"
  from keys have "\<forall>k\<in>set (df_index frame). parse k = Some (the (parse k))"
    by auto
  then have parsed: "those (map parse (df_index frame)) = Some ?ds"
    by (rule those_map_Some)
  then have first: "sort_ds_dates srt parse render frame = (None, ?R)"
    using cols by (rule sort_ds_dates_parsed)
  have "fst ` set ?S \<subseteq> set ?ds"
    unfolding sort_index_desc_set [OF srt] by (auto dest: set_zip_leftD)
  with keys have round: "\<forall>x\<in>set ?S. parse (render (fst x)) = Some (fst x)"
    by force
  have idx: "df_index ?R = map (\<lambda>x. render (fst x)) ?S"
    by (simp add: df_index_def split_def comp_def)
  from round have "\<forall>x\<in>set ?S. (\<lambda>x. parse (render (fst x))) x = Some (fst x)"
    by simp
  then have "those (map (\<lambda>x. parse (render (fst x))) ?S) = Some (map fst ?S)"
    by (rule those_map_Some)
  then have reparsed: "those (map parse (df_index ?R)) = Some (map fst ?S)"
    by (simp add: idx comp_def)
  have desc: "sorted_wrt (\<lambda>a b. a \<ge> b) (map fst ?S)"
    using srt by (rule sort_index_desc_sorted)
  have colsR: "sorted (columns ?R)" "distinct (columns ?R)"
    using cols by simp_all
  have unkeyed: "map snd (rows ?R) = map snd ?S"
    by (simp add: split_def comp_def)
  have "zip (map fst ?S) (map snd (rows ?R)) = ?S"
    unfolding unkeyed by (rule zip_map_fst_snd)
  then have "sort_index_desc srt (zip (map fst ?S) (map snd (rows ?R))) = ?S"
    using desc by (simp add: sort_index_desc_idem)
  then have second: "sort_ds_dates srt parse render ?R = (None, ?R)"
    unfolding sort_ds_dates_parsed [OF reparsed colsR(2)]
    using colsR(1) by (simp add: sorted_sort_id)
  from first reparsed desc colsR(1) second show ?thesis
    by blast
qed

lemma sorts_desc_newest_first: "sorts_desc newest_first"
  by (simp add: sorts_desc_def newest_first_def sorted_wrt_rev rev_map [symmetric])

theorem sort_ds_dates_sorted_witness:
  "sorts_desc (newest_first :: (nat \<times> (string \<Rightarrow> nat option)) list \<Rightarrow> _) \<and>
   distinct (columns T0) \<and>
   df_index T0 = [''d1'', ''d3'', ''d2''] \<and>
   parse0 (render0 1) = Some 1 \<and> parse0 (render0 2) = Some 2 \<and> parse0 (render0 3) = Some 3 \<and>
   (\<exists>sorted_frame dates.
      sort_ds_dates newest_first parse0 render0 T0 = (None, sorted_frame) \<and>
      those (map parse0 (df_index sorted_frame)) = Some dates \<and>
      sorted_wrt (\<lambda>a b. a \<ge> b) dates \<and>
      sorted (columns sorted_frame) \<and>
      sort_ds_dates newest_first parse0 render0 sorted_frame = (None, sorted_frame)) \<and>
   df_index (snd (sort_ds_dates newest_first parse0 render0 T0)) = [''d3'', ''d2'', ''d1''] \<and>
   columns (snd (sort_ds_dates newest_first parse0 render0 T0)) = [''site'', ''title'']"
proof -
  have idx: "df_index T0 = [''d1'', ''d3'', ''d2'']"
    by (simp add: T0_def df_index_def)
  have round: "parse0 (render0 1) = Some 1" "parse0 (render0 2) = Some 2" "parse0 (render0 3) = Some 3"
    by (simp_all add: parse0_def render0_def)
  have keys: "\<forall>k\<in>set (df_index T0). \<exists>d. parse0 k = Some d \<and> parse0 (render0 d) = Some d"
    unfolding idx by (simp add: parse0_def render0_def)
  have cols: "distinct (columns T0)"
    by (simp add: T0_def)
  have sorted_idx: "df_index (snd (sort_ds_dates newest_first parse0 render0 T0)) = [''d3'', ''d2'', ''d1'']"
    by (simp add: sort_ds_dates_def idx T0_def parse0_def render0_def sort_index_desc_def
        newest_first_def df_index_def Let_def)
  have sorted_cols: "columns (snd (sort_ds_dates newest_first parse0 render0 T0)) = [''site'', ''title'']"
    by (simp add: sort_ds_dates_def idx T0_def parse0_def render0_def sort_index_desc_def
        newest_first_def df_index_def Let_def)
  from sort_ds_dates_sorted [OF sorts_desc_newest_first keys cols]
    sorts_desc_newest_first cols idx round sorted_idx sorted_cols
  show ?thesis
    by (intro conjI)
qed

section \<open>Properties of the intersector\<close>

lemma set_merge_ordered_on: "set (merge_ordered_on xs ys) = set xs \<inter> set ys"
  by (auto simp: merge_ordered_on_def)

lemma set_fold_merge_ordered_on:
  "set (fold (\<lambda>frame acc. merge_ordered_on acc (cells_of c frame)) frames acc) =
   set acc \<inter> (\<Inter>frame\<in>set frames. set (cells_of c frame))"
  by (induction frames arbitrary: acc) (auto simp: set_merge_ordered_on)

lemma filter_zip_map: "map snd (filter fst (zip (map p xs) xs)) = filter p xs"
  by (induction xs) auto

lemma select_rows_isin:
  "select_rows (map (\<lambda>x. x \<in> A) (cells_of c frame)) frame =
   frame\<lparr>rows := filter (\<lambda>(k, r). r c \<in> A) (rows frame)\<rparr>"
proof -
  have "map (\<lambda>x. x \<in> A) (cells_of c frame) = map (\<lambda>(k, r). r c \<in> A) (rows frame)"
    by (simp add: cells_of_def split_def)
  then show ?thesis
    by (simp add: select_rows_def filter_zip_map)
qed

lemma set_cells_filter:
  "set (cells_of c (frame\<lparr>rows := filter (\<lambda>(k, r). r c \<in> A) (rows frame)\<rparr>)) =
   set (cells_of c frame) \<inter> A"
  by (force simp: cells_of_def split_def)

lemma intersection_keys:
  assumes "2 \<le> length dataframes"
  shows "set (fold (\<lambda>frame acc. merge_ordered_on acc (cells_of c frame)) (drop 2 dataframes)
            (merge_ordered_on (cells_of c (dataframes ! 0)) (cells_of c (dataframes ! 1)))) =
         (\<Inter>frame\<in>set dataframes. set (cells_of c frame))"
proof -
  from assms obtain a b rest where split: "dataframes = a # b # rest"
    by (cases dataframes; cases "tl dataframes") auto
  show ?thesis
    unfolding split by (auto simp: set_fold_merge_ordered_on set_merge_ordered_on)
qed

text \<open>
  Claim C7 (intersection). For at least two tables that all have the column, the call
  returns one table for each input, in order. Each output has the rows of its input whose
  cell in the column lies in the intersection of the column's value sets of all inputs, in
  the input's row order, and the set of its cells in the column is exactly that
  intersection.
\<close>

theorem intersect_on_column_correct:
  fixes dataframes :: "('k, 'v::linorder) dataframe list"
  assumes two: "2 \<le> length dataframes"
    and shared: "\<forall>frame\<in>set dataframes. column_name \<in> set (columns frame)"
  shows "\<exists>out. intersect_on_column dataframes column_name = Inr out \<and>
     length out = length dataframes \<and>
     (\<forall>i<length dataframes.
        rows (out ! i) =
          filter (\<lambda>(k, r). r column_name \<in> (\<Inter>frame\<in>set dataframes. set (cells_of column_name frame)))
            (rows (dataframes ! i)) \<and>
        columns (out ! i) = columns (dataframes ! i) \<and>
        set (cells_of column_name (out ! i)) =
          (\<Inter>frame\<in>set dataframes. set (cells_of column_name frame)))"
proof -
  let ?common = "\<Inter>frame\<in>set dataframes. set (cells_of column_name frame)"
  let ?out = "map (\<lambda>frame. frame\<lparr>rows := filter (\<lambda>(k, r). r column_name \<in> ?common) (rows frame)\<rparr>)
                dataframes"
  note keys = intersection_keys [OF two, of column_name]
  from two shared have result: "intersect_on_column dataframes column_name = Inr ?out"
    unfolding intersect_on_column_def Let_def select_rows_isin keys by auto
  have "set (cells_of column_name (?out ! i)) = ?common" if "i < length dataframes" for i
  proof -
    from that have "?common \<subseteq> set (cells_of column_name (dataframes ! i))"
      by (meson INT_lower nth_mem)
    moreover from that have "set (cells_of column_name (?out ! i)) =
        set (cells_of column_name (dataframes ! i)) \<inter> ?common"
      by (simp only: nth_map set_cells_filter)
    ultimately show ?thesis
      by blast
  qed
  with result show ?thesis
    by simp
qed

theorem intersect_on_column_correct_witness:
  "(2::nat) \<le> length [T0, T1] \<and> ''title'' \<in> set (columns T0) \<and> ''title'' \<in> set (columns T1) \<and>
   (\<Inter>frame\<in>set [T0, T1]. set (cells_of ''title'' frame)) = {Some 8, None} \<and>
   (\<exists>out. intersect_on_column [T0, T1] ''title'' = Inr out \<and> length out = 2 \<and>
      df_index (out ! 0) = [''d3'', ''d2''] \<and> df_index (out ! 1) = [''x'', ''y''] \<and>
      set (cells_of ''title'' (out ! 0)) = {Some 8, None} \<and>
      set (cells_of ''title'' (out ! 1)) = {Some 8, None})"
proof -
  have two: "2 \<le> length [T0, T1]"
    by simp
  have cols: "''title'' \<in> set (columns T0)" "''title'' \<in> set (columns T1)"
    by (simp_all add: T0_def T1_def)
  then have shared: "\<forall>frame\<in>set [T0, T1]. ''title'' \<in> set (columns frame)"
    by simp
  have common: "(\<Inter>frame\<in>set [T0, T1]. set (cells_of ''title'' frame)) = {Some 8, None}"
    by (auto simp: cells_of_def T0_def T1_def)
  from intersect_on_column_correct [OF two shared]
  obtain out where out: "intersect_on_column [T0, T1] ''title'' = Inr out" "length out = 2"
    and each: "\<forall>i<2. rows (out ! i) =
          filter (\<lambda>(k, r). r ''title'' \<in> {Some 8, None}) (rows ([T0, T1] ! i)) \<and>
        columns (out ! i) = columns ([T0, T1] ! i) \<and>
        set (cells_of ''title'' (out ! i)) = {Some 8, None}"
    unfolding common by auto
  from each have "rows (out ! 0) = filter (\<lambda>(k, r). r ''title'' \<in> {Some 8, None}) (rows T0)"
    and "rows (out ! 1) = filter (\<lambda>(k, r). r ''title'' \<in> {Some 8, None}) (rows T1)"
    and cells: "set (cells_of ''title'' (out ! 0)) = {Some 8, None}"
      "set (cells_of ''title'' (out ! 1)) = {Some 8, None}"
    by simp_all
  then have "df_index (out ! 0) = [''d3'', ''d2'']" and "df_index (out ! 1) = [''x'', ''y'']"
    by (simp_all add: df_index_def T0_def T1_def)
  with out cells have "\<exists>out. intersect_on_column [T0, T1] ''title'' = Inr out \<and> length out = 2 \<and>
      df_index (out ! 0) = [''d3'', ''d2''] \<and> df_index (out ! 1) = [''x'', ''y''] \<and>
      set (cells_of ''title'' (out ! 0)) = {Some 8, None} \<and>
      set (cells_of ''title'' (out ! 1)) = {Some 8, None}"
    by blast
  with two cols common show ?thesis
    by (intro conjI)
qed

end
